theory Spec2Isabelle
  imports Main "HOL-Library.AList" "HOL-Library.Sublist"
begin

section \<open>Column types and the schema sanitizer\<close>

text \<open>
  A column type of the table engine, as the sanitizer of
  \<^verbatim>\<open>polars_parquet_reader.py\<close> inspects it: a list type with its inner type, a struct
  type with its ordered fields, or any other type (named by its kind).
\<close>

datatype dtype = Primitive string | List dtype | Struct "(string \<times> dtype) list"

type_synonym schema = "(string \<times> dtype) list"

text \<open>
  \<^verbatim>\<open>__remove_empty_structs\<close> (lines 75-117). The Python function returns the pair
  \<^verbatim>\<open>(new_schema, is_empty)\<close>, which is \<^verbatim>\<open>(None, True)\<close> on every empty branch and
  \<^verbatim>\<open>(type, False)\<close> on every other one; the model writes \<open>None\<close> for the former and
  \<open>Some type\<close> for the latter. The loop over the fields keeps the dictionary
  \<^verbatim>\<open>new_fields\<close> (an association list updated as a Python dictionary is: an existing key
  keeps its position) and the flag \<^verbatim>\<open>all_empty\<close>.
\<close>

fun remove_empty_structs :: "dtype \<Rightarrow> dtype option" where
  "remove_empty_structs (List inner) =
     (case remove_empty_structs inner of
        None \<Rightarrow> None
      | Some inner_schema \<Rightarrow> Some (List inner_schema))"
| "remove_empty_structs (Struct fields) =
     (if fields = [] then None
      else
        let (new_fields, all_empty) =
          fold (\<lambda>(field_name, field_type) (new_fields, all_empty).
                  case remove_empty_structs field_type of
                    None \<Rightarrow> (new_fields, all_empty)
                  | Some new_field_type \<Rightarrow>
                      (AList.update field_name new_field_type new_fields, False))
               fields ([], True)
        in if all_empty then None else Some (Struct new_fields))"
| "remove_empty_structs (Primitive kind) = Some (Primitive kind)"

text \<open>
  The fields of a struct that survive sanitization, each with its sanitized type, in the
  order of the original fields. This is the reading of the struct case that the design
  describes; it is compared with the loop above.
\<close>

definition retained_fields :: "(string \<times> dtype) list \<Rightarrow> (string \<times> dtype) list" where
  "retained_fields fields =
     List.map_filter (\<lambda>(n, t). map_option (Pair n) (remove_empty_structs t)) fields"

text \<open>
  A type as a data frame can carry it: the field names of every struct are pairwise
  different (a struct is an ordered mapping from field names to types).
\<close>

fun wf_dtype :: "dtype \<Rightarrow> bool" where
  "wf_dtype (Primitive kind) = True"
| "wf_dtype (List inner) = wf_dtype inner"
| "wf_dtype (Struct fields) =
     (distinct (map fst fields) \<and> (\<forall>f \<in> set fields. wf_dtype (snd f)))"

section \<open>Tables and the table engine\<close>

text \<open>
  A table (a polars \<^verbatim>\<open>DataFrame\<close> or \<^verbatim>\<open>LazyFrame\<close>) is its schema, an ordered mapping
  from column names to types, and its rows, each row a mapping from column names to cell
  values. Cell values are a parameter \<open>'v\<close> of the model. Inside \<^verbatim>\<open>write_parquet\<close> every
  table is lazy (line 160): a plan that runs only where it is collected. Two fields say
  what running it does beyond giving the rows: \<open>failing\<close>, the columns whose values
  cannot be computed, so that a collect that needs one of them raises; and \<open>scans\<close>, whether
  the plan reads files of the storage when it runs or when its schema is resolved, as a
  \<^verbatim>\<open>LazyFrame\<close> built on a scan does. The rows are the rows the plan gives; they do not
  depend on when it runs.

  The table engine (polars and its pyarrow writer) is not code of this repository. What
  the repository's code relies on is collected in the record \<open>engine\<close>: the null value;
  the text of a value inside the partition path of line 304 (\<^verbatim>\<open>f"{col}={value}"\<close>, Python's
  \<^verbatim>\<open>str\<close>) and the text the partitioned writer puts into the directory name; whether
  the engine accepts a cast between two types when it resolves the schema of a plan; the
  cast of a cell value, which may fail on the value; and the common supertype that a
  relaxed concat gives two types.
\<close>

type_synonym 'v row = "(string \<times> 'v) list"

record 'v frame =
  schema :: schema
  rows :: "'v row list"
  failing :: "string list"
  scans :: bool

record 'v engine =
  null_val :: 'v
  render :: "'v \<Rightarrow> string"
  dir_text :: "'v \<Rightarrow> string"
  castable :: "dtype \<Rightarrow> dtype \<Rightarrow> bool"
  cast_val :: "dtype \<Rightarrow> 'v \<Rightarrow> 'v option"
  supertype :: "dtype \<Rightarrow> dtype \<Rightarrow> dtype option"

datatype error =
    ValueError
  | ComputeError
  | ColumnNotFoundError
  | DuplicateError
  | InvalidOperationError
  | SchemaError
  | FileNotFoundError
  | FileExistsError
  | IsADirectoryError
  | KeyError

definition columns :: "'v frame \<Rightarrow> string list" where
  "columns df = map fst (schema df)"

text \<open>The cell of a row in a column; a column the row does not have reads as null.\<close>

definition cell :: "'v engine \<Rightarrow> 'v row \<Rightarrow> string \<Rightarrow> 'v" where
  "cell E r c = (case map_of r c of Some v \<Rightarrow> v | None \<Rightarrow> null_val E)"

text \<open>
  The cast of one cell from type \<open>t\<close> to type \<open>T\<close>: \<open>None\<close> where the value cannot be
  cast. A cell whose cast fails keeps its value in the rows; its column is failing.
\<close>

definition cast_cell :: "'v engine \<Rightarrow> dtype \<Rightarrow> dtype \<Rightarrow> 'v \<Rightarrow> 'v option" where
  "cast_cell E t T v = (if t = T then Some v else cast_val E T v)"

definition cast_or_keep :: "'v engine \<Rightarrow> dtype \<Rightarrow> dtype \<Rightarrow> 'v \<Rightarrow> 'v" where
  "cast_or_keep E t T v = (case cast_cell E t T v of Some v' \<Rightarrow> v' | None \<Rightarrow> v)"

definition column_cast_fails :: "'v engine \<Rightarrow> 'v frame \<Rightarrow> string \<Rightarrow> dtype \<Rightarrow> bool" where
  "column_cast_fails E df name T =
     (case map_of (schema df) name of
        None \<Rightarrow> False
      | Some t \<Rightarrow> \<exists>r \<in> set (rows df). cast_cell E t T (cell E r name) = None)"

text \<open>
  \<^verbatim>\<open>df.with_columns([pl.col(name).cast(dtype) for name, dtype in casts])\<close> on a lazy
  table. Resolving the schema of the new plan raises when a named column does not exist
  or the engine does not accept a cast. The columns keep their places. A cast that fails
  on a value raises only where the plan runs: its column becomes failing.
\<close>

definition with_columns_cast :: "'v engine \<Rightarrow> 'v frame \<Rightarrow> (string \<times> dtype) list \<Rightarrow> error + 'v frame" where
  "with_columns_cast E df casts =
     (if \<exists>(name, T) \<in> set casts. map_of (schema df) name = None then Inl ColumnNotFoundError
      else if \<exists>(name, T) \<in> set casts.
                case map_of (schema df) name of
                  Some t \<Rightarrow> t \<noteq> T \<and> \<not> castable E t T
                | None \<Rightarrow> False
      then Inl InvalidOperationError
      else Inr \<lparr> schema = map (\<lambda>(n, t). case map_of casts n of
                                          Some T \<Rightarrow> (n, T)
                                        | None \<Rightarrow> (n, t)) (schema df),
                 rows = map (map (\<lambda>(n, v). case (map_of (schema df) n, map_of casts n) of
                                              (Some t, Some T) \<Rightarrow> (n, cast_or_keep E t T v)
                                            | _ \<Rightarrow> (n, v))) (rows df),
                 failing = failing df
                           @ filter (\<lambda>name. case map_of casts name of
                                              Some T \<Rightarrow> column_cast_fails E df name T
                                            | None \<Rightarrow> False) (map fst casts),
                 scans = scans df \<rparr>)"

text \<open>\<^verbatim>\<open>df.select(cols)\<close>: the named columns, in the order of \<open>cols\<close>.\<close>

definition select :: "'v engine \<Rightarrow> 'v frame \<Rightarrow> string list \<Rightarrow> error + 'v frame" where
  "select E df cols =
     (if \<exists>c \<in> set cols. map_of (schema df) c = None then Inl ColumnNotFoundError
      else if \<not> distinct cols then Inl DuplicateError
      else Inr \<lparr> schema = List.map_filter (\<lambda>c. map_option (Pair c) (map_of (schema df) c)) cols,
                 rows = map (\<lambda>r. map (\<lambda>c. (c, cell E r c)) cols) (rows df),
                 failing = filter (\<lambda>c. c \<in> set cols) (failing df),
                 scans = scans df \<rparr>)"

text \<open>\<^verbatim>\<open>df.rows()\<close>: the rows as tuples of cells, in the order of the columns.\<close>

definition tuples :: "'v engine \<Rightarrow> 'v frame \<Rightarrow> 'v list list" where
  "tuples E df = map (\<lambda>r. map (cell E r) (columns df)) (rows df)"

text \<open>\<^verbatim>\<open>df.unique()\<close>: one row for each distinct row.\<close>

definition unique :: "'v frame \<Rightarrow> 'v frame" where
  "unique df = df\<lparr> rows := remdups (rows df) \<rparr>"

text \<open>
  Two rows agree on the join columns when each of these cells is equal in both and not
  null (polars does not join null keys).
\<close>

definition key_match :: "'v engine \<Rightarrow> string list \<Rightarrow> 'v row \<Rightarrow> 'v row \<Rightarrow> bool" where
  "key_match E on l r =
     list_all (\<lambda>c. cell E l c \<noteq> null_val E \<and> cell E l c = cell E r c) on"

text \<open>A join needs its columns on both sides, with the same types.\<close>

definition join_check :: "'v frame \<Rightarrow> 'v frame \<Rightarrow> string list \<Rightarrow> error option" where
  "join_check left right on =
     (if \<exists>c \<in> set on. map_of (schema left) c = None \<or> map_of (schema right) c = None
      then Some ColumnNotFoundError
      else if map (map_of (schema left)) on \<noteq> map (map_of (schema right)) on
      then Some SchemaError
      else None)"

text \<open>
  \<^verbatim>\<open>left.join(right, on=on)\<close>, the inner join: every pair of matching rows, with the
  columns of the left row and then the other columns of the right row.
\<close>

definition join_inner :: "'v engine \<Rightarrow> 'v frame \<Rightarrow> 'v frame \<Rightarrow> string list \<Rightarrow> error + 'v frame" where
  "join_inner E left right on =
     (case join_check left right on of
        Some e \<Rightarrow> Inl e
      | None \<Rightarrow>
          Inr \<lparr> schema = schema left @ filter (\<lambda>(c, t). c \<notin> set on) (schema right),
                rows = concat (map (\<lambda>l. map (\<lambda>r. l @ filter (\<lambda>(c, v). c \<notin> set on) r)
                                              (filter (key_match E on l) (rows right)))
                                   (rows left)),
                failing = failing left @ failing right,
                scans = (scans left \<or> scans right) \<rparr>)"

text \<open>
  \<^verbatim>\<open>left.join(right, on=on, how="anti")\<close>: the rows of the left table that match no row
  of the right one. Of the right table the plan needs the join columns only.
\<close>

definition join_anti :: "'v engine \<Rightarrow> 'v frame \<Rightarrow> 'v frame \<Rightarrow> string list \<Rightarrow> error + 'v frame" where
  "join_anti E left right on =
     (case join_check left right on of
        Some e \<Rightarrow> Inl e
      | None \<Rightarrow>
          Inr (left\<lparr> rows := filter (\<lambda>l. \<not> (\<exists>r \<in> set (rows right). key_match E on l r))
                                     (rows left),
                     failing := failing left @ filter (\<lambda>c. c \<in> set on) (failing right),
                     scans := (scans left \<or> scans right) \<rparr>))"

text \<open>
  \<^verbatim>\<open>pl.concat([a, b], how="diagonal_relaxed")\<close>, the union by name: the columns of \<open>a\<close>,
  then the columns only \<open>b\<close> has; a column of both takes the common supertype (the concat
  fails when there is none); the rows of \<open>a\<close>, then the rows of \<open>b\<close>, each padded with
  nulls in the columns its table does not have. A cast to the supertype that fails on a
  value makes the column failing.
\<close>

definition union_schema :: "'v engine \<Rightarrow> schema \<Rightarrow> schema \<Rightarrow> (string \<times> dtype option) list" where
  "union_schema E sa sb =
     map (\<lambda>(c, t). case map_of sb c of
                      None \<Rightarrow> (c, Some t)
                    | Some u \<Rightarrow> (c, if t = u then Some t else supertype E t u)) sa
     @ map (\<lambda>(c, u). (c, Some u)) (filter (\<lambda>(c, u). map_of sa c = None) sb)"

definition pad_row :: "'v engine \<Rightarrow> schema \<Rightarrow> schema \<Rightarrow> 'v row \<Rightarrow> 'v row" where
  "pad_row E own target r =
     map (\<lambda>(c, T). case map_of own c of
                      None \<Rightarrow> (c, null_val E)
                    | Some t \<Rightarrow> (c, cast_or_keep E t T (cell E r c))) target"

definition pad_fails :: "'v engine \<Rightarrow> schema \<Rightarrow> schema \<Rightarrow> 'v row list \<Rightarrow> string list" where
  "pad_fails E own target rs =
     filter (\<lambda>c. case (map_of own c, map_of target c) of
                    (Some t, Some T) \<Rightarrow> \<exists>r \<in> set rs. cast_cell E t T (cell E r c) = None
                  | _ \<Rightarrow> False) (map fst target)"

definition concat_diagonal_relaxed :: "'v engine \<Rightarrow> 'v frame \<Rightarrow> 'v frame \<Rightarrow> error + 'v frame" where
  "concat_diagonal_relaxed E a b =
     (let u = union_schema E (schema a) (schema b) in
      if \<exists>(c, t) \<in> set u. t = None then Inl SchemaError
      else
        let target = List.map_filter (\<lambda>(c, t). map_option (Pair c) t) u in
        Inr \<lparr> schema = target,
              rows = map (pad_row E (schema a) target) (rows a)
                   @ map (pad_row E (schema b) target) (rows b),
              failing = failing a @ failing b
                        @ pad_fails E (schema a) target (rows a)
                        @ pad_fails E (schema b) target (rows b),
              scans = (scans a \<or> scans b) \<rparr>)"

text \<open>
  \<^verbatim>\<open>__transform_data_removing_empty_structs\<close> (lines 119-147). The first loop collects
  the dictionary \<^verbatim>\<open>new_schema\<close> and the list \<^verbatim>\<open>columns_to_transform\<close>; a column whose type
  is empty is skipped by \<^verbatim>\<open>continue\<close>. The second loop casts every collected column to its
  new type; \<^verbatim>\<open>new_schema[column]\<close> raises \<^verbatim>\<open>KeyError\<close> on a missing key. The result is
  a plan; what its casts raise, they raise where it is collected (line 280).
\<close>

definition analyze_schema :: "schema \<Rightarrow> schema \<times> string list" where
  "analyze_schema sch =
     fold (\<lambda>(column_name, dtype) (new_schema, columns_to_transform).
             case remove_empty_structs dtype of
               None \<Rightarrow> (new_schema, columns_to_transform)
             | Some new_type \<Rightarrow>
                 if new_type \<noteq> dtype
                 then (AList.update column_name new_type new_schema,
                       columns_to_transform @ [column_name])
                 else (new_schema, columns_to_transform))
          sch ([], [])"

fun apply_transformations :: "'v engine \<Rightarrow> schema \<Rightarrow> string list \<Rightarrow> 'v frame \<Rightarrow> error + 'v frame" where
  "apply_transformations E new_schema [] df = Inr df"
| "apply_transformations E new_schema (column # columns_to_transform) df =
     (case map_of new_schema column of
        None \<Rightarrow> Inl KeyError
      | Some new_type \<Rightarrow>
          (case with_columns_cast E df [(column, new_type)] of
             Inl e \<Rightarrow> Inl e
           | Inr df' \<Rightarrow> apply_transformations E new_schema columns_to_transform df'))"

definition transform_data_removing_empty_structs :: "'v engine \<Rightarrow> 'v frame \<Rightarrow> error + 'v frame" where
  "transform_data_removing_empty_structs E df =
     (let (new_schema, columns_to_transform) = analyze_schema (schema df)
      in apply_transformations E new_schema columns_to_transform df)"

text \<open>
  The schema reconciliation inside \<^verbatim>\<open>write_parquet\<close> (lines 187-201): the incoming plan
  after the attempt, and \<^verbatim>\<open>schemas_match\<close>. Inside the \<^verbatim>\<open>try\<close> the code builds the
  plan with the casts and resolves its schema (\<^verbatim>\<open>collect_schema\<close>, line 194); it does
  not run the plan. So the \<^verbatim>\<open>except\<close> sees the failures of resolving the schema only, and
  leaves \<^verbatim>\<open>lazy_df\<close> and \<^verbatim>\<open>schemas_match\<close> as they were before the \<^verbatim>\<open>try\<close>; a cast that
  fails on a value is carried in the adjusted plan as a failing column.
\<close>

definition reconcile :: "'v engine \<Rightarrow> schema \<Rightarrow> 'v frame \<Rightarrow> 'v frame \<times> bool" where
  "reconcile E df_existing_schema lazy_df =
     (let new_df_schema = schema lazy_df;
          schemas_match = (df_existing_schema = new_df_schema)
      in if \<not> schemas_match then
           (case with_columns_cast E lazy_df df_existing_schema of
              Inr adjusted_df \<Rightarrow> (adjusted_df, df_existing_schema = schema adjusted_df)
            | Inl e \<Rightarrow> (lazy_df, schemas_match))
         else (lazy_df, df_existing_schema = new_df_schema))"

section \<open>The storage seen from the target path\<close>

text \<open>
  The storage backend (\<^verbatim>\<open>file_system.py\<close> over the local file system or S3) is modelled
  as far as one call of \<^verbatim>\<open>write_parquet\<close> observes it, from the \<^verbatim>\<open>path\<close> of that call:
  nothing is there; or something is there that the engine cannot read as a dataset; or a
  dataset is there, with the schema a scan reports and its parquet files, each under its
  partition directory. A directory below \<^verbatim>\<open>path\<close> is named by its segments,
  \<^verbatim>\<open>["region=US", "year=2024"]\<close> for \<^verbatim>\<open>f"{path}/region=US/year=2024"\<close>, and \<open>[]\<close> is
  \<^verbatim>\<open>path\<close> itself. A dataset directory without any file is not readable either.

  Three more fields describe what lines 170-172 meet. \<open>s3\<close> says that \<^verbatim>\<open>path\<close> starts
  with \<^verbatim>\<open>s3://\<close>. \<^verbatim>\<open>getdir\<close> goes through \<^verbatim>\<open>pathlib\<close>, which makes \<^verbatim>\<open>s3:/bucket/dir\<close> of
  \<^verbatim>\<open>s3://bucket/dir/name\<close>, a path that \<^verbatim>\<open>exists\<close> and \<^verbatim>\<open>mkdir\<close> then take for a local
  one. \<open>parent_exists\<close> says whether the directory above \<^verbatim>\<open>path\<close> is found on the local
  file system: the parent of a local \<^verbatim>\<open>path\<close>, the path that pathlib made for an S3
  one. \<open>on_mkdir\<close> is what \<^verbatim>\<open>os.mkdir\<close> does in \<^verbatim>\<open>file_system.mkdir\<close>, which is
  called with that directory and makes \<^verbatim>\<open>os.path.dirname\<close> of it, the directory one
  level further up: it creates it, or raises because it is there already, or raises
  because the level above it is missing.

  Every call into the storage backend or into the engine's readers and writer is recorded,
  in order, in \<open>events\<close>.
\<close>

datatype 'v target =
    Absent
  | Unreadable
  | Dataset schema "(string list \<times> 'v row list) list"

datatype mkdir_outcome = Creates | AlreadyThere | NoParent

datatype 'v event =
    Exists "string list"
  | ListDir
  | CollectSchema
  | CollectData
  | ResolveIncoming
  | CollectIncoming
  | ExistsCurrentDir
  | Mkdir
  | RemoveDir "string list"
  | WriteParquet "'v frame" "string list"

record 'v world =
  target :: "'v target"
  s3 :: bool
  parent_exists :: bool
  on_mkdir :: mkdir_outcome
  events :: "'v event list"

type_synonym ('a, 'v) io = "'v world \<Rightarrow> (error + 'a) \<times> 'v world"

definition return :: "'a \<Rightarrow> ('a, 'v) io" where
  "return x = (\<lambda>w. (Inr x, w))"

definition raise :: "error \<Rightarrow> ('a, 'v) io" where
  "raise e = (\<lambda>w. (Inl e, w))"

definition bind :: "('a, 'v) io \<Rightarrow> ('a \<Rightarrow> ('b, 'v) io) \<Rightarrow> ('b, 'v) io" where
  "bind m f = (\<lambda>w. case m w of (Inl e, w') \<Rightarrow> (Inl e, w') | (Inr x, w') \<Rightarrow> f x w')"

definition lift :: "error + 'a \<Rightarrow> ('a, 'v) io" where
  "lift r = (case r of Inl e \<Rightarrow> raise e | Inr x \<Rightarrow> return x)"

definition try_except :: "('a, 'v) io \<Rightarrow> (error \<Rightarrow> ('a, 'v) io) \<Rightarrow> ('a, 'v) io" where
  "try_except m handler = (\<lambda>w. case m w of (Inl e, w') \<Rightarrow> handler e w' | (Inr x, w') \<Rightarrow> (Inr x, w'))"

definition record_event :: "'v event \<Rightarrow> (unit, 'v) io" where
  "record_event ev = (\<lambda>w. (Inr (), w\<lparr> events := events w @ [ev] \<rparr>))"

definition readable :: "'v target \<Rightarrow> bool" where
  "readable t = (case t of Dataset sch parts \<Rightarrow> parts \<noteq> [] | _ \<Rightarrow> False)"

text \<open>\<^verbatim>\<open>self._fs.exists\<close> on \<^verbatim>\<open>path\<close> (no segments) or on a directory below it.\<close>

definition dir_exists :: "'v target \<Rightarrow> string list \<Rightarrow> bool" where
  "dir_exists t segs =
     (case t of
        Absent \<Rightarrow> False
      | Unreadable \<Rightarrow> segs = []
      | Dataset sch parts \<Rightarrow> segs = [] \<or> (\<exists>(d, rs) \<in> set parts. prefix segs d))"

definition fs_exists :: "string list \<Rightarrow> (bool, 'v) io" where
  "fs_exists segs = bind (record_event (Exists segs)) (\<lambda>_ w. (Inr (dir_exists (target w) segs), w))"

text \<open>
  \<^verbatim>\<open>self.scan_parquet(path)\<close> lists the directory (\<^verbatim>\<open>__check_path_suffix\<close>) and builds a
  lazy scan; the data is read where the scan is collected.
\<close>

definition scan_parquet :: "(unit, 'v) io" where
  "scan_parquet =
     bind (record_event ListDir)
       (\<lambda>_ w. if target w = Absent then (Inl FileNotFoundError, w) else (Inr (), w))"

definition collect_schema :: "(schema, 'v) io" where
  "collect_schema =
     bind (record_event CollectSchema)
       (\<lambda>_ w. case target w of
                 Dataset sch parts \<Rightarrow> if parts = [] then (Inl ComputeError, w) else (Inr sch, w)
               | Unreadable \<Rightarrow> (Inl ComputeError, w)
               | Absent \<Rightarrow> (Inl FileNotFoundError, w))"

definition collect_existing :: "('v frame, 'v) io" where
  "collect_existing =
     bind (record_event CollectData)
       (\<lambda>_ w. case target w of
                 Dataset sch parts \<Rightarrow>
                   if parts = [] then (Inl ComputeError, w)
                   else (Inr \<lparr> schema = sch, rows = concat (map snd parts),
                               failing = [], scans = False \<rparr>, w)
               | Unreadable \<Rightarrow> (Inl ComputeError, w)
               | Absent \<Rightarrow> (Inl FileNotFoundError, w))"

text \<open>
  The incoming plan or a plan built on it: \<^verbatim>\<open>collect_schema()\<close> resolves its schema and
  \<^verbatim>\<open>collect()\<close> runs it. Both read the storage when the plan scans; the collect raises
  when a column it needs is failing, and gives a table in memory.
\<close>

definition resolve_schema :: "'v frame \<Rightarrow> (unit, 'v) io" where
  "resolve_schema df = (if scans df then record_event ResolveIncoming else return ())"

definition collect :: "'v frame \<Rightarrow> ('v frame, 'v) io" where
  "collect df =
     bind (if scans df then record_event CollectIncoming else return ()) (\<lambda>_.
     if failing df \<noteq> [] then raise InvalidOperationError
     else return (df\<lparr> scans := False \<rparr>))"

text \<open>
  \<^verbatim>\<open>self._fs.exists(self._fs.getdir(path))\<close> (lines 170-171). For a local \<^verbatim>\<open>path\<close> the
  directory is \<^verbatim>\<open>path\<close> itself when that is a directory and its parent otherwise, so it
  exists when \<^verbatim>\<open>path\<close> does; for an S3 \<^verbatim>\<open>path\<close> the test is made on the local file
  system, whatever is on S3.
\<close>

definition exists_currentDir :: "(bool, 'v) io" where
  "exists_currentDir =
     bind (record_event ExistsCurrentDir)
       (\<lambda>_ w. (Inr (if s3 w then parent_exists w
                     else target w \<noteq> Absent \<or> parent_exists w), w))"

text \<open>
  \<^verbatim>\<open>self._fs.mkdir(currentDir)\<close> (line 172): \<^verbatim>\<open>os.mkdir(os.path.dirname(currentDir))\<close>.
  The directory asked for is not created in any case.
\<close>

definition fs_mkdir :: "(unit, 'v) io" where
  "fs_mkdir =
     bind (record_event Mkdir)
       (\<lambda>_ w. case on_mkdir w of
                 Creates \<Rightarrow> (Inr (), w)
               | AlreadyThere \<Rightarrow> (Inl FileExistsError, w)
               | NoParent \<Rightarrow> (Inl FileNotFoundError, w))"

text \<open>\<^verbatim>\<open>self._fs.remove_dir\<close>: the directory and everything below it.\<close>

definition remove_target :: "'v target \<Rightarrow> string list \<Rightarrow> 'v target" where
  "remove_target t segs =
     (if segs = [] then Absent
      else case t of
             Dataset sch parts \<Rightarrow> Dataset sch (filter (\<lambda>(d, rs). \<not> prefix segs d) parts)
           | _ \<Rightarrow> t)"

definition remove_dir :: "string list \<Rightarrow> (unit, 'v) io" where
  "remove_dir segs =
     bind (record_event (RemoveDir segs))
       (\<lambda>_ w. (Inr (), w\<lparr> target := remove_target (target w) segs \<rparr>))"

text \<open>
  The partition directory of a combination of partition values (line 304), as segments
  below \<^verbatim>\<open>path\<close>.
\<close>

definition partition_path :: "'v engine \<Rightarrow> string list \<Rightarrow> 'v list \<Rightarrow> string list" where
  "partition_path E partition_cols partition' =
     map (\<lambda>(col, v). col @ ''='' @ render E v) (zip partition_cols partition')"

text \<open>\<^verbatim>\<open>__remove_partitions\<close> (lines 301-307).\<close>

fun remove_partitions :: "'v engine \<Rightarrow> string list \<Rightarrow> 'v list list \<Rightarrow> (unit, 'v) io" where
  "remove_partitions E partition_cols [] = return ()"
| "remove_partitions E partition_cols (partition' # partitions_affected) =
     bind (fs_exists (partition_path E partition_cols partition')) (\<lambda>ex.
     bind (if ex then remove_dir (partition_path E partition_cols partition') else return ()) (\<lambda>_.
     remove_partitions E partition_cols partitions_affected))"

text \<open>
  \<^verbatim>\<open>df.write_parquet(path, use_pyarrow=True, ...)\<close>. With partition columns the writer
  adds one file for each combination of partition values of the table, under the
  directory it names for that combination, creating the directories it needs, and leaves
  the files already there. Without partition columns it writes the one file \<^verbatim>\<open>path\<close>,
  replacing a file of that name; it cannot replace a directory of partitions, and on a
  local file system it cannot write into a directory that does not exist.
\<close>

definition partition_key :: "'v engine \<Rightarrow> string list \<Rightarrow> 'v row \<Rightarrow> 'v list" where
  "partition_key E partition_cols r = map (cell E r) partition_cols"

definition writer_path :: "'v engine \<Rightarrow> string list \<Rightarrow> 'v list \<Rightarrow> string list" where
  "writer_path E partition_cols key =
     map (\<lambda>(col, v). col @ ''='' @ dir_text E v) (zip partition_cols key)"

definition partition_files :: "'v engine \<Rightarrow> string list \<Rightarrow> 'v row list \<Rightarrow> (string list \<times> 'v row list) list" where
  "partition_files E partition_cols rs =
     map (\<lambda>k. (writer_path E partition_cols k,
               filter (\<lambda>r. partition_key E partition_cols r = k) rs))
         (remdups (map (partition_key E partition_cols) rs))"

definition written_target :: "'v engine \<Rightarrow> 'v frame \<Rightarrow> string list \<Rightarrow> 'v target \<Rightarrow> error + 'v target" where
  "written_target E df partition_cols t =
     (if partition_cols \<noteq> [] then
        if \<exists>c \<in> set partition_cols. c \<notin> set (columns df) then Inl ColumnNotFoundError
        else case t of
               Dataset sch parts \<Rightarrow>
                 Inr (Dataset sch (parts @ partition_files E partition_cols (rows df)))
             | Absent \<Rightarrow> Inr (Dataset (schema df) (partition_files E partition_cols (rows df)))
             | Unreadable \<Rightarrow> Inr Unreadable
      else case t of
             Dataset sch parts \<Rightarrow>
               if \<exists>(d, rs) \<in> set parts. d \<noteq> [] then Inl IsADirectoryError
               else Inr (Dataset (schema df) [([], rows df)])
           | Absent \<Rightarrow> Inr (Dataset (schema df) [([], rows df)])
           | Unreadable \<Rightarrow> Inr (Dataset (schema df) [([], rows df)]))"

definition write_frame :: "'v engine \<Rightarrow> 'v frame \<Rightarrow> string list \<Rightarrow> (unit, 'v) io" where
  "write_frame E df partition_cols =
     bind (record_event (WriteParquet df partition_cols))
       (\<lambda>_ w. if partition_cols = [] \<and> \<not> s3 w \<and> target w = Absent \<and> \<not> parent_exists w
               then (Inl FileNotFoundError, w)
               else case written_target E df partition_cols (target w) of
                      Inl e \<Rightarrow> (Inl e, w)
                    | Inr t \<Rightarrow> (Inr (), w\<lparr> target := t \<rparr>))"

section \<open>The write reconciliation engine\<close>

datatype overwrite_level = Partition | Full

text \<open>
  A Python argument \<^verbatim>\<open>list[str] | None\<close>; \<open>given xs\<close> is the test
  \<^verbatim>\<open>xs and len(xs) > 0\<close>.
\<close>

definition given :: "string list option \<Rightarrow> bool" where
  "given xs = (case xs of None \<Rightarrow> False | Some l \<Rightarrow> l \<noteq> [])"

definition names :: "string list option \<Rightarrow> string list" where
  "names xs = (case xs of None \<Rightarrow> [] | Some l \<Rightarrow> l)"

text \<open>
  The probe for existing data (lines 164-175). Only \<^verbatim>\<open>ComputeError\<close> is caught; the
  handler removes \<^verbatim>\<open>path\<close> and the call goes on without existing data.
\<close>

definition probe_existing :: "(bool, 'v) io" where
  "probe_existing =
     try_except
       (bind (fs_exists []) (\<lambda>path_exists.
        bind (if path_exists
              then bind scan_parquet (\<lambda>_. bind collect_schema (\<lambda>test_if_exists. return True))
              else return False) (\<lambda>has_existing_data.
        bind exists_currentDir (\<lambda>dir_there.
        bind (if \<not> dir_there then fs_mkdir else return ()) (\<lambda>_.
        return has_existing_data)))))
       (\<lambda>e. if e = ComputeError then bind (remove_dir []) (\<lambda>_. return False) else raise e)"

text \<open>
  The schema of the incoming plan is resolved on line 184, again on line 194 for the plan
  with the casts, and again on line 200 when that raised.
\<close>

definition resolve_incoming :: "'v engine \<Rightarrow> schema \<Rightarrow> 'v frame \<Rightarrow> (unit, 'v) io" where
  "resolve_incoming E df_existing_schema lazy_df =
     bind (resolve_schema lazy_df) (\<lambda>_.
     if df_existing_schema \<noteq> schema lazy_df then
       bind (resolve_schema lazy_df) (\<lambda>_.
       case with_columns_cast E lazy_df df_existing_schema of
         Inl e \<Rightarrow> resolve_schema lazy_df
       | Inr adjusted_df \<Rightarrow> return ())
     else return ())"

text \<open>
  \<^verbatim>\<open>lazy_df.select(partition_cols).unique()\<close> (lines 215-219 and 241-245), a plan.
\<close>

definition partitions_affected_df :: "'v engine \<Rightarrow> 'v frame \<Rightarrow> string list \<Rightarrow> error + 'v frame" where
  "partitions_affected_df E lazy_df partition_cols =
     (case select E lazy_df partition_cols of
        Inl e \<Rightarrow> Inl e
      | Inr selected \<Rightarrow> Inr (unique selected))"

text \<open>
  The modes of a write over existing data (lines 203-276): the table to write, from the
  incoming table \<open>df\<close> as bound to \<^verbatim>\<open>df_to_write\<close> on line 177, the incoming plan
  \<open>lazy_df\<close> after the reconciliation, and \<^verbatim>\<open>schemas_match\<close>. The plans run where the
  source collects them: the affected partitions on lines 221 and 247, the union of a
  partition overwrite on line 233, the surviving rows of a partition-scoped upsert on
  line 259, the union of an upsert over the whole dataset on line 274. A full overwrite,
  a partition overwrite with matching schemas and a partition-scoped upsert hand on a
  plan that has not run. Where no mode applies, \<^verbatim>\<open>df_to_write\<close> is still the table
  bound on line 177, the incoming table as it was before the reconciliation.
\<close>

definition table_for_mode ::
  "'v engine \<Rightarrow> 'v frame \<Rightarrow> 'v frame \<Rightarrow> bool \<Rightarrow> string list option \<Rightarrow> string list option
     \<Rightarrow> overwrite_level option \<Rightarrow> ('v frame, 'v) io" where
  "table_for_mode E df lazy_df schemas_match upsert_key partition_cols overwrite_level =
    (if overwrite_level = Some Full then
       bind (remove_dir []) (\<lambda>_. return lazy_df)
     else if overwrite_level = Some Partition then
       if \<not> given partition_cols then raise ValueError
       else
         bind (lift (partitions_affected_df E lazy_df (names partition_cols))) (\<lambda>affected_plan.
         bind (collect affected_plan) (\<lambda>affected.
         bind (remove_partitions E (names partition_cols) (tuples E affected)) (\<lambda>_.
         bind scan_parquet (\<lambda>_.
         if \<not> schemas_match then
           bind collect_existing (\<lambda>df_existing.
           bind (lift (concat_diagonal_relaxed E lazy_df df_existing)) (\<lambda>union_plan.
           bind (collect union_plan) (\<lambda>df_to_write.
           bind (remove_dir []) (\<lambda>_. return df_to_write))))
         else return lazy_df))))
     else if given upsert_key then
       if given partition_cols \<and> schemas_match then
         bind (lift (partitions_affected_df E lazy_df (names partition_cols))) (\<lambda>affected_plan.
         bind (collect affected_plan) (\<lambda>affected.
         bind collect_existing (\<lambda>df_existing.
         bind (lift (join_inner E df_existing affected_plan (names partition_cols))) (\<lambda>in_affected.
         bind (lift (join_anti E in_affected lazy_df (names upsert_key))) (\<lambda>affected_plan'.
         bind (collect affected_plan') (\<lambda>affected_df.
         bind (remove_partitions E (names partition_cols) (tuples E affected)) (\<lambda>_.
         lift (concat_diagonal_relaxed E lazy_df affected_df))))))))
       else
         bind collect_existing (\<lambda>df_existing.
         bind (lift (join_anti E df_existing lazy_df (names upsert_key))) (\<lambda>unaffected_df.
         bind (lift (concat_diagonal_relaxed E lazy_df unaffected_df)) (\<lambda>union_plan.
         bind (collect union_plan) (\<lambda>df_to_write.
         bind (remove_dir []) (\<lambda>_. return df_to_write)))))
     else return df)"

text \<open>
  The branch for existing data (lines 179-276): the second scan of the dataset, the
  schemas, the reconciliation, and the mode.
\<close>

definition reconcile_with_existing ::
  "'v engine \<Rightarrow> 'v frame \<Rightarrow> string list option \<Rightarrow> string list option \<Rightarrow> overwrite_level option
     \<Rightarrow> ('v frame, 'v) io" where
  "reconcile_with_existing E df upsert_key partition_cols overwrite_level =
     bind scan_parquet (\<lambda>_.
     bind collect_schema (\<lambda>df_existing_schema.
     bind (resolve_incoming E df_existing_schema df) (\<lambda>_.
     let (lazy_df, schemas_match) = reconcile E df_existing_schema df in
     table_for_mode E df lazy_df schemas_match upsert_key partition_cols overwrite_level)))"

text \<open>
  The end of \<^verbatim>\<open>write_parquet\<close> (lines 278-297): the sanitizer resolves the schema of
  the table to write (line 129) and puts its casts on the plan, line 280 runs the plan,
  and the writer gets the table, with the partition columns when some are given.
\<close>

definition sanitize_and_write :: "'v engine \<Rightarrow> 'v frame \<Rightarrow> string list option \<Rightarrow> (unit, 'v) io" where
  "sanitize_and_write E df_to_write partition_cols =
     bind (resolve_schema df_to_write) (\<lambda>_.
     bind (lift (transform_data_removing_empty_structs E df_to_write)) (\<lambda>transformed_df.
     bind (collect transformed_df) (\<lambda>collected.
     if given partition_cols
     then write_frame E collected (names partition_cols)
     else write_frame E collected [])))"

text \<open>
  \<^verbatim>\<open>write_parquet\<close> (lines 149-299) in two steps: the table to write (lines 160-276),
  which is the incoming table when there is no existing data, and the sanitizer and the
  writer (lines 278-297). The arguments \<^verbatim>\<open>path\<close> and \<^verbatim>\<open>compression_method\<close> are fixed:
  the world is the storage at \<^verbatim>\<open>path\<close>, and the compression is handed to the writer
  unchanged.
\<close>

definition table_to_write ::
  "'v engine \<Rightarrow> 'v frame \<Rightarrow> string list option \<Rightarrow> string list option \<Rightarrow> overwrite_level option
     \<Rightarrow> ('v frame, 'v) io" where
  "table_to_write E df upsert_key partition_cols overwrite_level =
     bind probe_existing (\<lambda>has_existing_data.
     if has_existing_data
     then reconcile_with_existing E df upsert_key partition_cols overwrite_level
     else return df)"

definition write_parquet ::
  "'v engine \<Rightarrow> 'v frame \<Rightarrow> string list option \<Rightarrow> string list option \<Rightarrow> overwrite_level option
     \<Rightarrow> (unit, 'v) io" where
  "write_parquet E df upsert_key partition_cols overwrite_level =
     bind (table_to_write E df upsert_key partition_cols overwrite_level) (\<lambda>df_to_write.
     sanitize_and_write E df_to_write partition_cols)"

text \<open>
  A storage with the given content at a local \<^verbatim>\<open>path\<close> whose parent directory exists,
  and at an S3 \<^verbatim>\<open>path\<close> with no local directory of the name that pathlib makes; no
  event is recorded yet.
\<close>

definition storage :: "'v target \<Rightarrow> 'v world" where
  "storage t = \<lparr> target = t, s3 = False, parent_exists = True, on_mkdir = AlreadyThere,
                 events = [] \<rparr>"


section \<open>Properties and examples\<close>

text \<open>The two loop bodies of the sanitizer, named for the proofs about the loops.\<close>

abbreviation field_step ::
  "string \<times> dtype \<Rightarrow> (string \<times> dtype) list \<times> bool \<Rightarrow> (string \<times> dtype) list \<times> bool" where
  "field_step \<equiv> (\<lambda>(field_name, field_type) (new_fields, all_empty).
                  case remove_empty_structs field_type of
                    None \<Rightarrow> (new_fields, all_empty)
                  | Some new_field_type \<Rightarrow>
                      (AList.update field_name new_field_type new_fields, False))"

abbreviation analyze_step :: "string \<times> dtype \<Rightarrow> schema \<times> string list \<Rightarrow> schema \<times> string list" where
  "analyze_step \<equiv> (\<lambda>(column_name, dtype) (new_schema, columns_to_transform).
             case remove_empty_structs dtype of
               None \<Rightarrow> (new_schema, columns_to_transform)
             | Some new_type \<Rightarrow>
                 if new_type \<noteq> dtype
                 then (AList.update column_name new_type new_schema,
                       columns_to_transform @ [column_name])
                 else (new_schema, columns_to_transform))"

text \<open>A type the sanitizer leaves alone: it is empty, or it is its own sanitized type.\<close>

definition settled :: "dtype \<Rightarrow> bool" where
  "settled t \<longleftrightarrow> remove_empty_structs t = None \<or> remove_empty_structs t = Some t"

text \<open>
  Three engines for the examples, over cells that are an optional text. All three write
  a value into a directory name as Python's \<^verbatim>\<open>str\<close> writes it, and take the left type as
  the common supertype. The first accepts every cast and leaves every cell as it is; the
  second accepts no cast; the third accepts every cast, and a cast of the text
  \<^verbatim>\<open>abc\<close> fails.
\<close>

definition plain_engine :: "string option engine" where
  "plain_engine =
     \<lparr> null_val = None,
       render = (\<lambda>v. case v of None \<Rightarrow> ''None'' | Some s \<Rightarrow> s),
       dir_text = (\<lambda>v. case v of None \<Rightarrow> ''None'' | Some s \<Rightarrow> s),
       castable = (\<lambda>t T. True),
       cast_val = (\<lambda>T v. Some v),
       supertype = (\<lambda>t u. Some t) \<rparr>"

definition strict_engine :: "string option engine" where
  "strict_engine = plain_engine\<lparr> castable := (\<lambda>t T. False) \<rparr>"

definition parsing_engine :: "string option engine" where
  "parsing_engine =
     plain_engine\<lparr> cast_val := (\<lambda>T v. if v = Some ''abc'' then None else Some v) \<rparr>"

text \<open>
  A table in memory with the given schema and rows: no failing column, no scan.
\<close>

definition table :: "schema \<Rightarrow> 'v row list \<Rightarrow> 'v frame" where
  "table sch rs = \<lparr> schema = sch, rows = rs, failing = [], scans = False \<rparr>"

text \<open>
  A table with a column \<^verbatim>\<open>meta\<close> that is a struct without fields, and a table with a
  struct column of which one field is empty.
\<close>

definition meta_table :: "string option frame" where
  "meta_table =
     \<lparr> schema = [(''id'', Primitive ''Int64''), (''meta'', Struct [])],
       rows = [[(''id'', Some ''1''), (''meta'', None)]],
       failing = [], scans = False \<rparr>"

definition nested_table :: "string option frame" where
  "nested_table =
     \<lparr> schema = [(''id'', Primitive ''Int64''),
                 (''info'', Struct [(''gone'', Struct []), (''kept'', Primitive ''String'')])],
       rows = [[(''id'', Some ''1''), (''info'', Some ''x'')]],
       failing = [], scans = False \<rparr>"

text \<open>
  The dataset and the incoming table of scenario B of the design, and an incoming table
  whose column \<^verbatim>\<open>id\<close> is text where the dataset has integers.
\<close>

definition kv_schema :: schema where
  "kv_schema = [(''id'', Primitive ''Int64''), (''v'', Primitive ''String'')]"

definition kv_existing :: "string option target" where
  "kv_existing =
     Dataset kv_schema [([], [[(''id'', Some ''1''), (''v'', Some ''a'')],
                              [(''id'', Some ''2''), (''v'', Some ''b'')]])]"

definition kv_incoming :: "string option frame" where
  "kv_incoming =
     \<lparr> schema = kv_schema, rows = [[(''id'', Some ''1''), (''v'', Some ''z'')]],
       failing = [], scans = False \<rparr>"

definition text_incoming :: "string option frame" where
  "text_incoming =
     \<lparr> schema = [(''id'', Primitive ''String''), (''v'', Primitive ''String'')],
       rows = [[(''id'', Some ''1''), (''v'', Some ''z'')]],
       failing = [], scans = False \<rparr>"

text \<open>
  What lines 170-172 do on a storage: whether the directory of \<^verbatim>\<open>path\<close> is found, the
  events of the check and of the \<^verbatim>\<open>mkdir\<close> that follows when it is not, and the error
  of that \<^verbatim>\<open>mkdir\<close> if it raises.
\<close>

definition dir_found :: "'v world \<Rightarrow> bool" where
  "dir_found w = (if s3 w then parent_exists w else target w \<noteq> Absent \<or> parent_exists w)"

definition dir_events :: "'v world \<Rightarrow> 'v event list" where
  "dir_events w = (if dir_found w then [ExistsCurrentDir] else [ExistsCurrentDir, Mkdir])"

definition dir_error :: "'v world \<Rightarrow> error option" where
  "dir_error w =
     (if dir_found w then None
      else case on_mkdir w of
             Creates \<Rightarrow> None
           | AlreadyThere \<Rightarrow> Some FileExistsError
           | NoParent \<Rightarrow> Some FileNotFoundError)"

text \<open>
  The reads of the incoming plan's schema on lines 184, 194 and 200, as events.
\<close>

definition incoming_reads :: "'v engine \<Rightarrow> schema \<Rightarrow> 'v frame \<Rightarrow> 'v event list" where
  "incoming_reads E sch df =
     (if scans df then
        if sch \<noteq> schema df then
          case with_columns_cast E df sch of
            Inl e \<Rightarrow> [ResolveIncoming, ResolveIncoming, ResolveIncoming]
          | Inr adjusted_df \<Rightarrow> [ResolveIncoming, ResolveIncoming]
        else [ResolveIncoming]
      else [])"

text \<open>
  What \<^verbatim>\<open>__remove_partitions\<close> leaves of the storage and what it records, as functions
  of the partitions it is given; and the rows a dataset holds in one partition directory.
\<close>

fun removed_after :: "'v engine \<Rightarrow> string list \<Rightarrow> 'v list list \<Rightarrow> 'v target \<Rightarrow> 'v target" where
  "removed_after E partition_cols [] t = t"
| "removed_after E partition_cols (p # ps) t =
     removed_after E partition_cols ps
       (if dir_exists t (partition_path E partition_cols p)
        then remove_target t (partition_path E partition_cols p) else t)"

fun removal_events :: "'v engine \<Rightarrow> string list \<Rightarrow> 'v list list \<Rightarrow> 'v target \<Rightarrow> 'v event list" where
  "removal_events E partition_cols [] t = []"
| "removal_events E partition_cols (p # ps) t =
     (if dir_exists t (partition_path E partition_cols p)
      then Exists (partition_path E partition_cols p)
           # RemoveDir (partition_path E partition_cols p)
           # removal_events E partition_cols ps (remove_target t (partition_path E partition_cols p))
      else Exists (partition_path E partition_cols p) # removal_events E partition_cols ps t)"

definition partition_rows :: "'v target \<Rightarrow> string list \<Rightarrow> 'v row list" where
  "partition_rows t d =
     (case t of
        Dataset sch parts \<Rightarrow> concat (map snd (filter (\<lambda>(d', rs). d' = d) parts))
      | _ \<Rightarrow> [])"

text \<open>
  Over a dataset, the incoming plan after the reconciliation with the schema of the
  dataset, whether the schemas match then, and the combinations of partition values
  that lines 215-221 and 241-247 find in it.
\<close>

definition reconciled :: "'v engine \<Rightarrow> 'v frame \<Rightarrow> 'v target \<Rightarrow> 'v frame" where
  "reconciled E df t = (case t of Dataset sch parts \<Rightarrow> fst (reconcile E sch df) | _ \<Rightarrow> df)"

definition schemas_match_at :: "'v engine \<Rightarrow> 'v frame \<Rightarrow> 'v target \<Rightarrow> bool" where
  "schemas_match_at E df t = (case t of Dataset sch parts \<Rightarrow> snd (reconcile E sch df) | _ \<Rightarrow> False)"

definition affected_partitions :: "'v engine \<Rightarrow> 'v frame \<Rightarrow> string list option \<Rightarrow> 'v target \<Rightarrow> 'v list list" where
  "affected_partitions E df partition_cols t =
     (case partitions_affected_df E (reconciled E df t) (names partition_cols) of
        Inl e \<Rightarrow> []
      | Inr affected \<Rightarrow> tuples E affected)"

text \<open>
  The dataset and the incoming tables of scenario C of the design, partitioned by
  \<^verbatim>\<open>region\<close>: an incoming table with a row for one region, one with rows for two
  regions, and one with a further column.
\<close>

definition region_schema :: schema where
  "region_schema = [(''id'', Primitive ''Int64''), (''region'', Primitive ''String'')]"

definition region_existing :: "string option target" where
  "region_existing =
     Dataset region_schema
       [([''region=US''], [[(''id'', Some ''1''), (''region'', Some ''US'')]]),
        ([''region=EU''], [[(''id'', Some ''2''), (''region'', Some ''EU'')]])]"

definition region_incoming :: "string option frame" where
  "region_incoming =
     \<lparr> schema = region_schema, rows = [[(''id'', Some ''3''), (''region'', Some ''US'')]],
       failing = [], scans = False \<rparr>"

definition region_incoming_two :: "string option frame" where
  "region_incoming_two =
     \<lparr> schema = region_schema,
       rows = [[(''id'', Some ''3''), (''region'', Some ''US'')],
               [(''id'', Some ''4''), (''region'', Some ''EU'')]],
       failing = [], scans = False \<rparr>"

definition region_incoming_wide :: "string option frame" where
  "region_incoming_wide =
     \<lparr> schema = region_schema @ [(''note'', Primitive ''String'')],
       rows = [[(''id'', Some ''3''), (''region'', Some ''US''), (''note'', Some ''n'')]],
       failing = [], scans = False \<rparr>"

text \<open>
  The kinds of recorded events: reads of the state on disk, among them the reads that
  resolving and running a scanning incoming plan makes; removals; and the final write.
  No read follows a removal; no removal follows the write.
\<close>

fun is_read :: "'v event \<Rightarrow> bool" where
  "is_read (Exists segs) = True"
| "is_read ListDir = True"
| "is_read CollectSchema = True"
| "is_read CollectData = True"
| "is_read ResolveIncoming = True"
| "is_read CollectIncoming = True"
| "is_read ExistsCurrentDir = True"
| "is_read Mkdir = False"
| "is_read (RemoveDir segs) = False"
| "is_read (WriteParquet df partition_cols) = False"

fun is_delete :: "'v event \<Rightarrow> bool" where
  "is_delete (RemoveDir segs) = True"
| "is_delete ev = False"

fun is_write :: "'v event \<Rightarrow> bool" where
  "is_write (WriteParquet df partition_cols) = True"
| "is_write ev = False"

fun no_read_after_delete :: "'v event list \<Rightarrow> bool" where
  "no_read_after_delete [] = True"
| "no_read_after_delete (ev # evs) =
     ((is_delete ev \<longrightarrow> \<not> list_ex is_read evs) \<and> no_read_after_delete evs)"

fun no_delete_after_write :: "'v event list \<Rightarrow> bool" where
  "no_delete_after_write [] = True"
| "no_delete_after_write (ev # evs) =
     ((is_write ev \<longrightarrow> \<not> list_ex is_delete evs) \<and> no_delete_after_write evs)"

text \<open>A computation that only adds events of one kind to the record.\<close>

definition emits :: "('v event \<Rightarrow> bool) \<Rightarrow> ('a, 'v) io \<Rightarrow> bool" where
  "emits p m \<longleftrightarrow> (\<forall>w. \<exists>evs. events (snd (m w)) = events w @ evs \<and> list_all p evs)"

text \<open>The same plan built on a scan of files.\<close>

definition scanning :: "'v frame \<Rightarrow> 'v frame" where
  "scanning df = df\<lparr> scans := True \<rparr>"

text \<open>
  A computation that, from the world \<open>w\<close>, keeps its reads before its removals, and
  that hands on a table in memory when it has removed something.
\<close>

definition orderly :: "('v frame, 'v) io \<Rightarrow> 'v world \<Rightarrow> bool" where
  "orderly m w \<longleftrightarrow>
     (\<exists>evs. events (snd (m w)) = events w @ evs \<and> no_read_after_delete evs
            \<and> (\<forall>d w'. m w = (Inr d, w') \<longrightarrow> list_ex is_delete evs \<longrightarrow> \<not> scans d))"

text \<open>
  The key of a row, and the existing rows that match no incoming row on the key.
\<close>

definition key_of :: "'v engine \<Rightarrow> string list \<Rightarrow> 'v row \<Rightarrow> 'v list" where
  "key_of E key r = map (cell E r) key"

definition survivors :: "'v engine \<Rightarrow> string list \<Rightarrow> 'v row list \<Rightarrow> 'v row list \<Rightarrow> 'v row list" where
  "survivors E key incoming existing =
     filter (\<lambda>l. \<not> (\<exists>r \<in> set incoming. key_match E key l r)) existing"

text \<open>
  A table is the union by name of two tables: the columns of the first and then the
  columns only the second has; the rows of the first and then the rows of the second,
  each padded to the columns of the union, with null in the columns its own table does
  not have.
\<close>

definition union_by_name :: "'v engine \<Rightarrow> 'v frame \<Rightarrow> 'v frame \<Rightarrow> 'v frame \<Rightarrow> bool" where
  "union_by_name E a b U \<longleftrightarrow>
     columns U = columns a @ filter (\<lambda>c. c \<notin> set (columns a)) (columns b)
     \<and> rows U = map (pad_row E (schema a) (schema U)) (rows a)
              @ map (pad_row E (schema b) (schema U)) (rows b)
     \<and> (\<forall>c \<in> set (columns U). c \<notin> set (columns a) \<longrightarrow>
           (\<forall>r \<in> set (rows a). cell E (pad_row E (schema a) (schema U) r) c = null_val E))
     \<and> (\<forall>c \<in> set (columns U). c \<notin> set (columns b) \<longrightarrow>
           (\<forall>r \<in> set (rows b). cell E (pad_row E (schema b) (schema U) r) c = null_val E))"

text \<open>
  What the end of the call (lines 278-297) makes of a table to write over a storage: the
  dataset that the writer leaves when it is given the sanitized table.
\<close>

definition materialize :: "'v engine \<Rightarrow> 'v frame \<Rightarrow> string list option \<Rightarrow> 'v target \<Rightarrow> error + 'v target" where
  "materialize E df_to_write partition_cols t =
     (case transform_data_removing_empty_structs E df_to_write of
        Inl e \<Rightarrow> Inl e
      | Inr transformed_df \<Rightarrow>
          written_target E (transformed_df\<lparr> scans := False \<rparr>)
            (if given partition_cols then names partition_cols else []) t)"

text \<open>
  The existing rows that remain for the union when the schemas do not match: in a
  partition overwrite the rows of the partition directories that were not removed, in
  an upsert the rows whose key matches no incoming row.
\<close>

definition remaining_rows ::
  "'v engine \<Rightarrow> 'v frame \<Rightarrow> string list option \<Rightarrow> string list option \<Rightarrow> overwrite_level option
     \<Rightarrow> (string list \<times> 'v row list) list \<Rightarrow> 'v row list" where
  "remaining_rows E df upsert_key partition_cols overwrite_level parts =
     (if overwrite_level = Some Partition
      then concat (map snd (filter (\<lambda>(d, rs). \<not> (\<exists>r \<in> set (rows df).
                      prefix (partition_path E (names partition_cols)
                                (partition_key E (names partition_cols) r)) d)) parts))
      else survivors E (names upsert_key) (rows df) (concat (map snd parts)))"

text \<open>
  Incoming tables whose column \<^verbatim>\<open>id\<close> is text: one with a further column, one whose
  \<^verbatim>\<open>id\<close> is not a number, and one for the partitioned dataset with a row in each region.
\<close>

definition note_incoming :: "string option frame" where
  "note_incoming =
     \<lparr> schema = [(''id'', Primitive ''String''), (''v'', Primitive ''String''),
                 (''note'', Primitive ''String'')],
       rows = [[(''id'', Some ''7''), (''v'', Some ''z''), (''note'', Some ''n'')]],
       failing = [], scans = False \<rparr>"

definition abc_incoming :: "string option frame" where
  "abc_incoming =
     \<lparr> schema = [(''id'', Primitive ''String''), (''v'', Primitive ''String'')],
       rows = [[(''id'', Some ''abc''), (''v'', Some ''z'')]],
       failing = [], scans = False \<rparr>"

definition region_text_incoming :: "string option frame" where
  "region_text_incoming =
     \<lparr> schema = [(''id'', Primitive ''String''), (''region'', Primitive ''String'')],
       rows = [[(''id'', Some ''3''), (''region'', Some ''US'')],
               [(''id'', Some ''4''), (''region'', Some ''EU'')]],
       failing = [], scans = False \<rparr>"

text \<open>
  For an upsert with partition columns: the existing rows that agree with some incoming
  row on every partition column, no cell being null, and the files of the dataset
  outside the directories that line 304 names for the incoming rows.
\<close>

definition touched :: "'v engine \<Rightarrow> string list \<Rightarrow> 'v row list \<Rightarrow> 'v row list \<Rightarrow> 'v row list" where
  "touched E partition_cols incoming existing =
     filter (\<lambda>l. \<exists>r \<in> set incoming. key_match E partition_cols l r) existing"

definition untouched_parts ::
  "'v engine \<Rightarrow> 'v row list \<Rightarrow> string list \<Rightarrow> (string list \<times> 'v row list) list
     \<Rightarrow> (string list \<times> 'v row list) list" where
  "untouched_parts E incoming partition_cols parts =
     filter (\<lambda>(d, rs). \<not> (\<exists>r \<in> set incoming.
               prefix (partition_path E partition_cols (partition_key E partition_cols r)) d)) parts"

text \<open>
  The table \<open>U\<close> is the upsert of the incoming table into the rows \<open>S\<close> that survive of a
  dataset with the schema \<open>sch\<close>: it is their union by name, its rows have the keys of
  the incoming rows and then the keys of the surviving rows, and a surviving row has the
  key of an incoming row only when one of its key cells is null.
\<close>

definition upserted ::
  "'v engine \<Rightarrow> string list \<Rightarrow> 'v frame \<Rightarrow> schema \<Rightarrow> 'v row list \<Rightarrow> 'v frame \<Rightarrow> bool" where
  "upserted E key incoming sch S U \<longleftrightarrow>
     union_by_name E incoming (table sch S) U
     \<and> map (key_of E key) (rows U) = map (key_of E key) (rows incoming) @ map (key_of E key) S
     \<and> (\<forall>l \<in> set S. \<forall>r \<in> set (rows incoming).
           key_of E key l = key_of E key r \<longrightarrow> (\<exists>c \<in> set key. cell E l c = null_val E))"

text \<open>
  An engine whose writer names the directory of a null partition value as pyarrow does,
  and the tables of the examples for upserts: a row that moves the key 1 to another
  region, a dataset and an incoming table with a null key, and a dataset and an incoming
  table with a null region.
\<close>

definition hive_engine :: "string option engine" where
  "hive_engine =
     plain_engine\<lparr> dir_text := (\<lambda>v. case v of None \<Rightarrow> ''__HIVE_DEFAULT_PARTITION__''
                                          | Some s \<Rightarrow> s) \<rparr>"

definition moved_incoming :: "string option frame" where
  "moved_incoming =
     \<lparr> schema = region_schema, rows = [[(''id'', Some ''1''), (''region'', Some ''EU'')]],
       failing = [], scans = False \<rparr>"

definition null_key_existing :: "string option target" where
  "null_key_existing = Dataset kv_schema [([], [[(''id'', None), (''v'', Some ''a'')]])]"

definition null_key_incoming :: "string option frame" where
  "null_key_incoming =
     \<lparr> schema = kv_schema, rows = [[(''id'', None), (''v'', Some ''z'')]],
       failing = [], scans = False \<rparr>"

definition null_region_existing :: "string option target" where
  "null_region_existing =
     Dataset region_schema
       [([''region=__HIVE_DEFAULT_PARTITION__''], [[(''id'', Some ''5''), (''region'', None)]])]"

definition null_region_incoming :: "string option frame" where
  "null_region_incoming =
     \<lparr> schema = region_schema, rows = [[(''id'', Some ''5''), (''region'', None)]],
       failing = [], scans = False \<rparr>"

section \<open>The sanitizer of one type\<close>

lemma update_fresh: "k \<notin> fst ` set acc \<Longrightarrow> AList.update k v acc = acc @ [(k, v)]"
  by (induction acc) auto

lemma update_entries: "set (AList.update k v acc) \<subseteq> insert (k, v) (set acc)"
  by (induction acc) auto

lemma fold_fields_distinct:
  "distinct (map fst fs) \<Longrightarrow> fst ` set acc \<inter> fst ` set fs = {} \<Longrightarrow>
   fold field_step fs (acc, ae) = (acc @ retained_fields fs, ae \<and> retained_fields fs = [])"
proof (induction fs arbitrary: acc ae)
  case Nil
  then show ?case by (simp add: retained_fields_def)
next
  case (Cons f fs)
  obtain n t where f: "f = (n, t)" by (cases f)
  show ?case
  proof (cases "remove_empty_structs t")
    case None
    with Cons f show ?thesis
      by (simp add: retained_fields_def)
  next
    case (Some t')
    have fresh: "n \<notin> fst ` set acc" using Cons.prems f by auto
    have disj: "fst ` set (acc @ [(n, t')]) \<inter> fst ` set fs = {}"
      using Cons.prems f by auto
    have d: "distinct (map fst fs)" using Cons.prems by simp
    show ?thesis
      using Cons.IH[OF d disj, of False] f Some fresh
      by (simp add: retained_fields_def update_fresh)
  qed
qed

lemma fold_fields_all_empty:
  "snd (fold field_step fs (acc, ae)) = (ae \<and> (\<forall>f \<in> set fs. remove_empty_structs (snd f) = None))"
proof (induction fs arbitrary: acc ae)
  case Nil
  then show ?case by simp
next
  case (Cons f fs)
  obtain n t where f: "f = (n, t)" by (cases f)
  show ?case
    by (cases "remove_empty_structs t") (simp_all add: f Cons.IH)
qed

lemma retained_fields_Nil_iff:
  "retained_fields fs = [] \<longleftrightarrow> (\<forall>f \<in> set fs. remove_empty_structs (snd f) = None)"
  by (induction fs) (auto simp: retained_fields_def split: option.splits)

lemma struct_distinct:
  "distinct (map fst fs) \<Longrightarrow>
   remove_empty_structs (Struct fs) =
     (if retained_fields fs = [] then None else Some (Struct (retained_fields fs)))"
  using fold_fields_distinct[of fs "[]" True]
  by (auto simp: retained_fields_def)

lemma struct_empty_iff:
  "remove_empty_structs (Struct fs) = None \<longleftrightarrow>
     fs = [] \<or> (\<forall>f \<in> set fs. remove_empty_structs (snd f) = None)"
proof -
  obtain nf ae where r: "fold field_step fs ([], True) = (nf, ae)"
    by (cases "fold field_step fs ([], True)")
  have "ae = (\<forall>f \<in> set fs. remove_empty_structs (snd f) = None)"
    using fold_fields_all_empty[of fs "[]" True] r by simp
  then show ?thesis using r by (auto split: if_splits)
qed

text \<open>
  Claim C8. The sanitizer of a type follows the three cases of the type tree. A primitive
  type is never empty and stays as it is. A list type is empty exactly when its sanitized
  inner type is, and is otherwise rebuilt around the sanitized inner type. A struct type
  is empty exactly when it has no field or no field survives; otherwise, its field names
  being pairwise different as in every struct of a data frame, it is rebuilt from exactly
  the surviving fields, each with its sanitized type, in their original order.
\<close>

theorem remove_empty_structs_cases:
  "remove_empty_structs (Primitive kind) = Some (Primitive kind)
   \<and> (remove_empty_structs (List inner) = None \<longleftrightarrow> remove_empty_structs inner = None)
   \<and> (\<forall>inner'. remove_empty_structs inner = Some inner'
         \<longrightarrow> remove_empty_structs (List inner) = Some (List inner'))
   \<and> (remove_empty_structs (Struct fs) = None
         \<longleftrightarrow> fs = [] \<or> (\<forall>f \<in> set fs. remove_empty_structs (snd f) = None))
   \<and> (retained_fields fs = [] \<longleftrightarrow> (\<forall>f \<in> set fs. remove_empty_structs (snd f) = None))
   \<and> (distinct (map fst fs) \<longrightarrow> remove_empty_structs (Struct fs) \<noteq> None
         \<longrightarrow> remove_empty_structs (Struct fs) = Some (Struct (retained_fields fs)))"
proof -
  have prim: "remove_empty_structs (Primitive kind) = Some (Primitive kind)" by simp
  have list_empty: "remove_empty_structs (List inner) = None \<longleftrightarrow> remove_empty_structs inner = None"
    by (simp split: option.splits)
  have list_rebuild: "\<forall>inner'. remove_empty_structs inner = Some inner'
         \<longrightarrow> remove_empty_structs (List inner) = Some (List inner')"
    by simp
  have struct_rebuild: "distinct (map fst fs) \<longrightarrow> remove_empty_structs (Struct fs) \<noteq> None
         \<longrightarrow> remove_empty_structs (Struct fs) = Some (Struct (retained_fields fs))"
    using struct_distinct[of fs] by (simp split: if_splits)
  show ?thesis
    using prim list_empty list_rebuild struct_empty_iff[of fs]
      retained_fields_Nil_iff[of fs] struct_rebuild
    by blast
qed

theorem remove_empty_structs_cases_witness:
  "distinct (map fst [(''a'', Struct []), (''b'', Primitive ''Int64''),
                      (''c'', List (Struct [(''x'', Struct [])]))])
   \<and> remove_empty_structs (List (Primitive ''Int64'')) = Some (List (Primitive ''Int64''))
   \<and> remove_empty_structs (Struct [(''a'', Struct []), (''b'', Primitive ''Int64''),
                                   (''c'', List (Struct [(''x'', Struct [])]))])
       = Some (Struct [(''b'', Primitive ''Int64'')])"
proof -
  let ?fields = "[(''a'', Struct []), (''b'', Primitive ''Int64''),
                  (''c'', List (Struct [(''x'', Struct [])]))]"
  have d: "distinct (map fst ?fields)" by simp
  have r: "retained_fields ?fields = [(''b'', Primitive ''Int64'')]"
    by (simp add: retained_fields_def)
  have inner: "remove_empty_structs (Primitive ''Int64'') = Some (Primitive ''Int64'')" by simp
  have some: "\<not> (\<forall>f \<in> set ?fields. remove_empty_structs (snd f) = None)" by simp
  note c = remove_empty_structs_cases[of "''Int64''" "Primitive ''Int64''" ?fields]
  from c inner have l: "remove_empty_structs (List (Primitive ''Int64'')) = Some (List (Primitive ''Int64''))"
    by blast
  from c some have "remove_empty_structs (Struct ?fields) \<noteq> None" by blast
  with c d have "remove_empty_structs (Struct ?fields) = Some (Struct (retained_fields ?fields))"
    by blast
  with r d l show ?thesis by simp
qed

section \<open>The sanitizer of a table\<close>

lemma fold_fields_invariant:
  "fold field_step fs (acc, ae) = (nf, ae') \<Longrightarrow> distinct (map fst acc) \<Longrightarrow> ae \<or> acc \<noteq> [] \<Longrightarrow>
   distinct (map fst nf) \<and> (ae' \<or> nf \<noteq> []) \<and>
   (\<forall>(n, t') \<in> set nf. (n, t') \<in> set acc \<or> (\<exists>t. (n, t) \<in> set fs \<and> remove_empty_structs t = Some t'))"
proof (induction fs arbitrary: acc ae)
  case Nil
  then show ?case by auto
next
  case (Cons f fs)
  obtain n t where f: "f = (n, t)" by (cases f)
  show ?case
  proof (cases "remove_empty_structs t")
    case None
    then have "fold field_step fs (acc, ae) = (nf, ae')" using Cons.prems(1) f by simp
    from Cons.IH[OF this Cons.prems(2) Cons.prems(3)] show ?thesis by (fastforce simp: f)
  next
    case (Some t')
    let ?acc = "AList.update n t' acc"
    have 1: "fold field_step fs (?acc, False) = (nf, ae')" using Cons.prems(1) f Some by simp
    have 2: "distinct (map fst ?acc)" using Cons.prems(2) by (simp add: distinct_update)
    have 3: "False \<or> ?acc \<noteq> []" by (cases acc) auto
    have sub: "set ?acc \<subseteq> insert (n, t') (set acc)" by (rule update_entries)
    from Cons.IH[OF 1 2 3] sub Some show ?thesis by (fastforce simp: f)
  qed
qed

lemma retained_fields_fixed:
  "\<forall>f \<in> set fs. remove_empty_structs (snd f) = Some (snd f) \<Longrightarrow> retained_fields fs = fs"
  by (induction fs) (auto simp: retained_fields_def)

lemma remove_empty_structs_idem:
  "remove_empty_structs t = Some t' \<Longrightarrow> remove_empty_structs t' = Some t'"
proof (induction t arbitrary: t' rule: remove_empty_structs.induct)
  case (1 inner)
  then show ?case by (auto split: option.splits)
next
  case (2 fields)
  obtain nf ae where r: "fold field_step fields ([], True) = (nf, ae)"
    by (cases "fold field_step fields ([], True)")
  from "2.prems" r have ne: "fields \<noteq> []" and ae: "\<not> ae" and t': "t' = Struct nf"
    by (auto split: if_splits)
  from fold_fields_invariant[OF r] have d: "distinct (map fst nf)" and nn: "ae \<or> nf \<noteq> []"
    and src: "\<forall>(n, u') \<in> set nf. \<exists>u. (n, u) \<in> set fields \<and> remove_empty_structs u = Some u'"
    by auto
  have fixed: "\<forall>f \<in> set nf. remove_empty_structs (snd f) = Some (snd f)"
  proof
    fix f assume \<open>f \<in> set nf\<close>
    obtain n u' where f: "f = (n, u')" by (cases f)
    with \<open>f \<in> set nf\<close> have "(n, u') \<in> set nf" by simp
    with src obtain u where u: "(n, u) \<in> set fields" "remove_empty_structs u = Some u'" by auto
    from "2.IH"[OF ne u(1) refl u(2)] show "remove_empty_structs (snd f) = Some (snd f)"
      by (simp add: f)
  qed
  have "retained_fields nf = nf" by (rule retained_fields_fixed[OF fixed])
  with struct_distinct[OF d] nn ae t' show ?case by simp
next
  case (3 kind)
  then show ?case by auto
qed

lemma analyze_settled:
  "\<forall>c \<in> set sch. settled (snd c) \<Longrightarrow> fold analyze_step sch acc = acc"
proof (induction sch)
  case Nil
  then show ?case by simp
next
  case (Cons c sch)
  obtain n t where c: "c = (n, t)" by (cases c)
  obtain ns cs where acc: "acc = (ns, cs)" by (cases acc)
  from Cons.prems c have "settled t" by simp
  then have "analyze_step c acc = acc"
    by (auto simp: settled_def c acc)
  with Cons show ?case by simp
qed

lemma analyze_invariant:
  "fold analyze_step sch (ns, cs) = (ns', cs') \<Longrightarrow>
   (\<forall>e \<in> set ns. settled (snd e)) \<Longrightarrow>
   (\<forall>e \<in> set ns'. settled (snd e)) \<and>
   set cs \<subseteq> set cs' \<and>
   (\<forall>c \<in> set sch. settled (snd c) \<or> fst c \<in> set cs')"
proof (induction sch arbitrary: ns cs)
  case Nil
  then show ?case by auto
next
  case (Cons c sch)
  obtain n t where c: "c = (n, t)" by (cases c)
  show ?case
  proof (cases "settled t")
    case True
    then have "analyze_step c (ns, cs) = (ns, cs)" by (auto simp: settled_def c)
    then have "fold analyze_step sch (ns, cs) = (ns', cs')" using Cons.prems(1) by simp
    from Cons.IH[OF this Cons.prems(2)] True show ?thesis by (simp add: c)
  next
    case False
    then obtain T where T: "remove_empty_structs t = Some T" "T \<noteq> t"
      by (auto simp: settled_def)
    have sT: "settled T" using remove_empty_structs_idem[OF T(1)] by (simp add: settled_def)
    let ?ns = "AList.update n T ns"
    have step: "fold analyze_step sch (?ns, cs @ [n]) = (ns', cs')"
      using Cons.prems(1) T by (simp add: c)
    have "\<forall>e \<in> set ?ns. settled (snd e)"
      using update_entries[of n T ns] Cons.prems(2) sT by auto
    from Cons.IH[OF step this] show ?thesis by (auto simp: c)
  qed
qed

lemma with_columns_cast_single_schema:
  "with_columns_cast E df [(c, T)] = Inr df' \<Longrightarrow>
   schema df' = map (\<lambda>(n, t). if n = c then (n, T) else (n, t)) (schema df)"
  by (auto simp: with_columns_cast_def split: if_splits intro!: map_cong)

lemma apply_transformations_settled:
  "apply_transformations E ns cs df = Inr df' \<Longrightarrow>
   \<forall>e \<in> set ns. settled (snd e) \<Longrightarrow>
   \<forall>c \<in> set (schema df). settled (snd c) \<or> fst c \<in> set cs \<Longrightarrow>
   \<forall>c \<in> set (schema df'). settled (snd c)"
proof (induction cs arbitrary: df)
  case Nil
  then show ?case by simp
next
  case (Cons c cs)
  from Cons.prems(1) obtain T df1 where T: "map_of ns c = Some T"
    and df1: "with_columns_cast E df [(c, T)] = Inr df1"
    and rest: "apply_transformations E ns cs df1 = Inr df'"
    by (auto split: option.splits sum.splits)
  from T have "(c, T) \<in> set ns" by (rule map_of_SomeD)
  with Cons.prems(2) have sT: "settled T" by auto
  have "\<forall>e \<in> set (schema df1). settled (snd e) \<or> fst e \<in> set cs"
  proof
    fix e assume \<open>e \<in> set (schema df1)\<close>
    then obtain n t where nt: "(n, t) \<in> set (schema df)"
      and e: "e = (if n = c then (n, T) else (n, t))"
      by (auto simp: with_columns_cast_single_schema[OF df1])
    from Cons.prems(3) nt have "settled t \<or> n = c \<or> n \<in> set cs" by fastforce
    with e sT show "settled (snd e) \<or> fst e \<in> set cs" by auto
  qed
  from Cons.IH[OF rest Cons.prems(2) this] show ?case .
qed

lemma transform_settled:
  assumes "transform_data_removing_empty_structs E df = Inr df'"
  shows "\<forall>c \<in> set (schema df'). settled (snd c)"
proof -
  obtain ns cs where a: "analyze_schema (schema df) = (ns, cs)"
    by (cases "analyze_schema (schema df)")
  then have f: "fold analyze_step (schema df) ([], []) = (ns, cs)"
    by (simp add: analyze_schema_def)
  from analyze_invariant[OF f] have 1: "\<forall>e \<in> set ns. settled (snd e)"
    and 2: "\<forall>c \<in> set (schema df). settled (snd c) \<or> fst c \<in> set cs" by auto
  from assms a have "apply_transformations E ns cs df = Inr df'"
    by (simp add: transform_data_removing_empty_structs_def)
  from apply_transformations_settled[OF this 1 2] show ?thesis .
qed

lemma transform_of_settled:
  assumes "\<forall>c \<in> set (schema df). settled (snd c)"
  shows "transform_data_removing_empty_structs E df = Inr df"
proof -
  have "analyze_schema (schema df) = ([], [])"
    unfolding analyze_schema_def by (rule analyze_settled[OF assms])
  then show ?thesis by (simp add: transform_data_removing_empty_structs_def)
qed

text \<open>
  Claim C7. The sanitizer is idempotent: a table that the sanitizer has produced is
  returned by the sanitizer as it is, schema and rows.
\<close>

theorem sanitize_idempotent:
  "transform_data_removing_empty_structs E df = Inr df' \<Longrightarrow>
   transform_data_removing_empty_structs E df' = Inr df'"
  by (rule transform_of_settled[OF transform_settled])

theorem sanitize_idempotent_witness:
  "transform_data_removing_empty_structs plain_engine nested_table =
     Inr \<lparr> schema = [(''id'', Primitive ''Int64''), (''info'', Struct [(''kept'', Primitive ''String'')])],
           rows = [[(''id'', Some ''1''), (''info'', Some ''x'')]],
           failing = [], scans = False \<rparr>
   \<and> transform_data_removing_empty_structs plain_engine
       \<lparr> schema = [(''id'', Primitive ''Int64''), (''info'', Struct [(''kept'', Primitive ''String'')])],
         rows = [[(''id'', Some ''1''), (''info'', Some ''x'')]],
         failing = [], scans = False \<rparr> =
     Inr \<lparr> schema = [(''id'', Primitive ''Int64''), (''info'', Struct [(''kept'', Primitive ''String'')])],
           rows = [[(''id'', Some ''1''), (''info'', Some ''x'')]],
           failing = [], scans = False \<rparr>"
proof -
  have first: "transform_data_removing_empty_structs plain_engine nested_table =
     Inr \<lparr> schema = [(''id'', Primitive ''Int64''), (''info'', Struct [(''kept'', Primitive ''String'')])],
           rows = [[(''id'', Some ''1''), (''info'', Some ''x'')]],
           failing = [], scans = False \<rparr>"
    by (simp add: transform_data_removing_empty_structs_def analyze_schema_def nested_table_def
        with_columns_cast_def plain_engine_def cast_cell_def cast_or_keep_def
        column_cast_fails_def cell_def)
  from sanitize_idempotent[OF first] first show ?thesis by simp
qed

text \<open>
  Claim C1, on the code. A top-level column whose type sanitizes to empty is skipped by
  the first loop of the sanitizer and never projected out: the table with the column
  \<^verbatim>\<open>meta\<close>, a struct without fields, comes back unchanged, and a write to a fresh path
  hands it to the writer with that column.
\<close>

theorem empty_struct_column_is_written:
  "remove_empty_structs (Struct []) = None
   \<and> transform_data_removing_empty_structs plain_engine meta_table = Inr meta_table
   \<and> write_parquet plain_engine meta_table None None None (storage Absent) =
       (Inr (), \<lparr> target = Dataset [(''id'', Primitive ''Int64''), (''meta'', Struct [])]
                                    [([], [[(''id'', Some ''1''), (''meta'', None)]])],
                  s3 = False, parent_exists = True, on_mkdir = AlreadyThere,
                  events = [Exists [], ExistsCurrentDir, WriteParquet meta_table []] \<rparr>)"
  by (simp add: transform_data_removing_empty_structs_def analyze_schema_def meta_table_def
      write_parquet_def table_to_write_def probe_existing_def sanitize_and_write_def
      storage_def bind_def return_def raise_def lift_def try_except_def fs_exists_def
      record_event_def dir_exists_def exists_currentDir_def write_frame_def written_target_def
      given_def resolve_schema_def collect_def)

section \<open>The probe for existing data\<close>

lemmas io_defs =
  bind_def return_def raise_def lift_def try_except_def record_event_def fs_exists_def
  scan_parquet_def collect_schema_def collect_existing_def exists_currentDir_def fs_mkdir_def
  remove_dir_def write_frame_def resolve_schema_def collect_def

lemma probe_readable:
  assumes "target w = Dataset sch parts" "parts \<noteq> []"
  shows "probe_existing w =
    (case dir_error w of None \<Rightarrow> Inr True | Some e \<Rightarrow> Inl e,
     w\<lparr> events := events w @ [Exists [], ListDir, CollectSchema] @ dir_events w \<rparr>)"
  using assms
  by (cases "on_mkdir w")
     (simp_all add: probe_existing_def io_defs dir_exists_def dir_error_def dir_events_def
        dir_found_def)

lemma probe_unreadable:
  assumes "target w \<noteq> Absent" "\<not> readable (target w)"
  shows "probe_existing w =
    (Inr False, w\<lparr> target := Absent,
                   events := events w @ [Exists [], ListDir, CollectSchema, RemoveDir []] \<rparr>)"
  using assms
  by (cases "target w")
     (simp_all add: probe_existing_def io_defs dir_exists_def readable_def remove_target_def)

lemma probe_absent:
  assumes "target w = Absent"
  shows "probe_existing w =
    (case dir_error w of None \<Rightarrow> Inr False | Some e \<Rightarrow> Inl e,
     w\<lparr> events := events w @ [Exists []] @ dir_events w \<rparr>)"
  using assms
  by (cases "on_mkdir w")
     (simp_all add: probe_existing_def io_defs dir_exists_def dir_error_def dir_events_def
        dir_found_def)


lemma apply_transformations_errors:
  "apply_transformations E ns cs df = Inl e \<Longrightarrow>
   e = KeyError \<or> e = ColumnNotFoundError \<or> e = InvalidOperationError"
proof (induction cs arbitrary: df)
  case Nil
  then show ?case by simp
next
  case (Cons c cs)
  show ?case
  proof (cases "map_of ns c")
    case None
    with Cons.prems show ?thesis by simp
  next
    case (Some T)
    show ?thesis
    proof (cases "with_columns_cast E df [(c, T)]")
      case (Inl e')
      with Cons.prems Some have "e = e'" by simp
      with Inl show ?thesis by (auto simp: with_columns_cast_def split: if_splits)
    next
      case (Inr df1)
      with Cons.prems Some have "apply_transformations E ns cs df1 = Inl e" by simp
      then show ?thesis by (rule Cons.IH)
    qed
  qed
qed

lemma sanitize_and_write_errors:
  assumes "sanitize_and_write E df pcs w = (Inl e, w')"
  shows "e = KeyError \<or> e = ColumnNotFoundError \<or> e = InvalidOperationError
         \<or> e = IsADirectoryError \<or> e = FileNotFoundError"
proof (cases "transform_data_removing_empty_structs E df")
  case (Inl e')
  with assms have "e = e'" by (simp add: sanitize_and_write_def io_defs split: if_splits)
  moreover from Inl have "e' = KeyError \<or> e' = ColumnNotFoundError \<or> e' = InvalidOperationError"
    by (auto simp: transform_data_removing_empty_structs_def split: prod.splits
        dest: apply_transformations_errors)
  ultimately show ?thesis by blast
next
  case (Inr W)
  with assms show ?thesis
    by (auto simp: sanitize_and_write_def io_defs written_target_def
        split: if_splits sum.splits target.splits)
qed



section \<open>Writes over existing data\<close>

lemma resolve_incoming_run:
  "resolve_incoming E sch df w = (Inr (), w\<lparr> events := events w @ incoming_reads E sch df \<rparr>)"
  by (cases "with_columns_cast E df sch")
     (simp_all add: resolve_incoming_def incoming_reads_def io_defs)

lemma table_to_write_existing:
  assumes "target w = Dataset sch parts" "parts \<noteq> []" "dir_error w = None"
  shows "table_to_write E df upsert_key partition_cols overwrite_level w =
    reconcile_with_existing E df upsert_key partition_cols overwrite_level
      (w\<lparr> events := events w @ [Exists [], ListDir, CollectSchema] @ dir_events w \<rparr>)"
  using probe_readable[OF assms(1,2)] assms(3) by (simp add: table_to_write_def bind_def)

lemma table_to_write_no_directory:
  assumes "target w = Dataset sch parts" "parts \<noteq> []" "dir_error w = Some e"
  shows "table_to_write E df upsert_key partition_cols overwrite_level w =
    (Inl e, w\<lparr> events := events w @ [Exists [], ListDir, CollectSchema] @ dir_events w \<rparr>)"
  using probe_readable[OF assms(1,2)] assms(3) by (simp add: table_to_write_def bind_def)

lemma sanitize_and_write_no_ValueError:
  "fst (sanitize_and_write E df pcs w) \<noteq> Inl ValueError"
proof
  assume a: "fst (sanitize_and_write E df pcs w) = Inl ValueError"
  obtain w' where "sanitize_and_write E df pcs w = (Inl ValueError, w')"
    using a by (cases "sanitize_and_write E df pcs w") auto
  from sanitize_and_write_errors[OF this] show False by simp
qed

text \<open>
  Over existing data, with an empty \<^verbatim>\<open>upsert_key\<close> and no \<^verbatim>\<open>overwrite_level\<close>, no mode
  applies: no directory is removed, no configuration error is raised, and the table
  handed to the sanitizer and the writer is the incoming table as it came in.
\<close>

lemma empty_upsert_key_writes_incoming:
  assumes "target w = Dataset sch parts" and "parts \<noteq> []" and "dir_error w = None"
  shows "table_to_write E df (Some []) partition_cols None w =
           (Inr df, w\<lparr> events := events w @ [Exists [], ListDir, CollectSchema] @ dir_events w
                                     @ [ListDir, CollectSchema] @ incoming_reads E sch df \<rparr>)
         \<and> fst (write_parquet E df (Some []) partition_cols None w) \<noteq> Inl ValueError"
proof -
  let ?w = "w\<lparr> events := events w @ [Exists [], ListDir, CollectSchema] @ dir_events w
                          @ [ListDir, CollectSchema] @ incoming_reads E sch df \<rparr>"
  have t: "table_to_write E df (Some []) partition_cols None w = (Inr df, ?w)"
    using assms(1,2)
    by (simp add: table_to_write_existing[OF assms] reconcile_with_existing_def table_for_mode_def io_defs
        resolve_incoming_run given_def split: prod.splits)
  then have "write_parquet E df (Some []) partition_cols None w =
               sanitize_and_write E df partition_cols ?w"
    by (simp add: write_parquet_def bind_def)
  with t show ?thesis by (simp add: sanitize_and_write_no_ValueError)
qed

text \<open>
  Claim C10, on the code. The dataset has \<^verbatim>\<open>id\<close> as integers, the incoming table as
  text, and the engine accepts the cast: the reconciliation builds the table with
  \<^verbatim>\<open>id\<close> cast to integers, but with an empty \<^verbatim>\<open>upsert_key\<close> and no
  \<^verbatim>\<open>overwrite_level\<close> the call writes the incoming table as it came in, with the text
  column. No directory is removed and no configuration error is raised; the write
  replaces the one file at \<^verbatim>\<open>path\<close>.
\<close>

theorem empty_upsert_key_writes_uncast_table:
  "fst (reconcile plain_engine kv_schema text_incoming) =
     \<lparr> schema = kv_schema, rows = [[(''id'', Some ''1''), (''v'', Some ''z'')]],
       failing = [], scans = False \<rparr>
   \<and> write_parquet plain_engine text_incoming (Some []) None None (storage kv_existing) =
       (Inr (),
        \<lparr> target = Dataset [(''id'', Primitive ''String''), (''v'', Primitive ''String'')]
                     [([], [[(''id'', Some ''1''), (''v'', Some ''z'')]])],
          s3 = False, parent_exists = True, on_mkdir = AlreadyThere,
          events = [Exists [], ListDir, CollectSchema, ExistsCurrentDir, ListDir, CollectSchema,
                    WriteParquet
                      \<lparr> schema = [(''id'', Primitive ''String''), (''v'', Primitive ''String'')],
                        rows = [[(''id'', Some ''1''), (''v'', Some ''z'')]],
                        failing = [], scans = False \<rparr> []] \<rparr>)
   \<and> text_incoming \<noteq> fst (reconcile plain_engine kv_schema text_incoming)"
proof -
  have r: "fst (reconcile plain_engine kv_schema text_incoming) =
     \<lparr> schema = kv_schema, rows = [[(''id'', Some ''1''), (''v'', Some ''z'')]],
       failing = [], scans = False \<rparr>"
    by (simp add: reconcile_def with_columns_cast_def plain_engine_def kv_schema_def
        text_incoming_def cast_cell_def cast_or_keep_def column_cast_fails_def cell_def)
  have t: "transform_data_removing_empty_structs plain_engine text_incoming = Inr text_incoming"
    by (simp add: transform_data_removing_empty_structs_def analyze_schema_def text_incoming_def)
  have w: "write_parquet plain_engine text_incoming (Some []) None None (storage kv_existing) =
       (Inr (),
        \<lparr> target = Dataset [(''id'', Primitive ''String''), (''v'', Primitive ''String'')]
                     [([], [[(''id'', Some ''1''), (''v'', Some ''z'')]])],
          s3 = False, parent_exists = True, on_mkdir = AlreadyThere,
          events = [Exists [], ListDir, CollectSchema, ExistsCurrentDir, ListDir, CollectSchema,
                    WriteParquet
                      \<lparr> schema = [(''id'', Primitive ''String''), (''v'', Primitive ''String'')],
                        rows = [[(''id'', Some ''1''), (''v'', Some ''z'')]],
                        failing = [], scans = False \<rparr> []] \<rparr>)"
  proof -
    have p: "probe_existing (storage kv_existing) =
        (Inr True, (storage kv_existing)\<lparr> events := [Exists [], ListDir, CollectSchema, ExistsCurrentDir] \<rparr>)"
      by (simp add: probe_existing_def io_defs dir_exists_def storage_def kv_existing_def)
    have s: "scans text_incoming = False" "failing text_incoming = []"
      by (simp_all add: text_incoming_def)
    have tt: "table_to_write plain_engine text_incoming (Some []) None None (storage kv_existing) =
        (Inr text_incoming, (storage kv_existing)\<lparr> events :=
           [Exists [], ListDir, CollectSchema, ExistsCurrentDir, ListDir, CollectSchema] \<rparr>)"
      unfolding table_to_write_def p bind_def
      by (simp add: reconcile_with_existing_def table_for_mode_def resolve_incoming_run
          incoming_reads_def s scan_parquet_def collect_schema_def record_event_def return_def
          bind_def storage_def kv_existing_def given_def split: prod.splits)
    show ?thesis
      unfolding write_parquet_def bind_def tt
      by (simp add: bind_def sanitize_and_write_def t s resolve_schema_def
          collect_def return_def lift_def given_def write_frame_def record_event_def
          written_target_def storage_def kv_existing_def)
         (simp add: text_incoming_def)
  qed
  have n: "text_incoming \<noteq> \<lparr> schema = kv_schema, rows = [[(''id'', Some ''1''), (''v'', Some ''z'')]],
                               failing = [], scans = False \<rparr>"
    by (simp add: text_incoming_def kv_schema_def)
  from r w n show ?thesis by simp
qed




section \<open>Removing partitions\<close>

lemma remove_partitions_run:
  "remove_partitions E pcs ps w =
     (Inr (), w\<lparr> target := removed_after E pcs ps (target w),
                 events := events w @ removal_events E pcs ps (target w) \<rparr>)"
proof (induction ps arbitrary: w)
  case Nil
  show ?case by (simp add: return_def)
next
  case (Cons p ps)
  show ?case
    by (simp add: Cons.IH io_defs)
qed

lemma removal_events_only:
  "ev \<in> set (removal_events E pcs ps t) \<Longrightarrow>
   \<exists>p \<in> set ps. ev = Exists (partition_path E pcs p) \<or> ev = RemoveDir (partition_path E pcs p)"
  by (induction ps arbitrary: t) (auto split: if_splits)


section \<open>The order of reads, removals and the write\<close>

lemma nrad_append:
  "no_read_after_delete (a @ b) =
     (no_read_after_delete a \<and> no_read_after_delete b
      \<and> (list_ex is_delete a \<longrightarrow> \<not> list_ex is_read b))"
  by (induction a) (auto simp: list_ex_iff)

lemma nrad_no_delete: "\<not> list_ex is_delete a \<Longrightarrow> no_read_after_delete a"
  by (induction a) (auto simp: list_ex_iff)

lemma ndaw_append:
  "list_all (\<lambda>ev. \<not> is_write ev) a \<Longrightarrow> list_all (\<lambda>ev. \<not> is_delete ev) b \<Longrightarrow>
   no_delete_after_write (a @ b)"
proof (induction a)
  case Nil
  then show ?case by (induction b) (auto simp: list_ex_iff list_all_iff)
next
  case (Cons x a)
  then show ?case by simp
qed

lemma dir_events_kinds [simp]:
  "\<not> list_ex is_delete (dir_events w)" "\<not> list_ex is_write (dir_events w)"
  by (simp_all add: dir_events_def)

lemma incoming_reads_kinds [simp]:
  "\<not> list_ex is_delete (incoming_reads E sch df)" "\<not> list_ex is_write (incoming_reads E sch df)"
  by (simp_all add: incoming_reads_def split: sum.splits)

lemma removal_events_no_write [simp]: "\<not> list_ex is_write (removal_events E pcs ps t)"
  by (induction ps arbitrary: t) simp_all

lemma with_columns_cast_scans:
  "with_columns_cast E df casts = Inr df' \<Longrightarrow> scans df' = scans df"
  by (auto simp: with_columns_cast_def split: if_splits)

lemma apply_transformations_scans:
  "apply_transformations E ns cs df = Inr df' \<Longrightarrow> scans df' = scans df"
proof (induction cs arbitrary: df)
  case Nil
  then show ?case by simp
next
  case (Cons c cs)
  then show ?case
    by (auto split: option.splits sum.splits dest: with_columns_cast_scans)
qed

lemma transform_scans:
  "transform_data_removing_empty_structs E df = Inr df' \<Longrightarrow> scans df' = scans df"
  by (auto simp: transform_data_removing_empty_structs_def split: prod.splits
      dest: apply_transformations_scans)

lemma reconcile_scans: "scans (fst (reconcile E sch df)) = scans df"
  by (auto simp: reconcile_def Let_def split: sum.splits dest: with_columns_cast_scans)

lemma sanitize_and_write_tail:
  "\<exists>evs. events (snd (sanitize_and_write E d pcs w)) = events w @ evs
         \<and> \<not> list_ex is_delete evs
         \<and> (\<not> scans d \<longrightarrow> \<not> list_ex is_read evs)"
proof (cases "transform_data_removing_empty_structs E d")
  case (Inl e)
  then show ?thesis by (simp add: sanitize_and_write_def io_defs)
next
  case (Inr t)
  from transform_scans[OF Inr] have "scans t = scans d" .
  with Inr show ?thesis
    by (simp add: sanitize_and_write_def io_defs split: sum.splits)
qed

lemma order_from_table:
  assumes "orderly (table_to_write E df upsert_key partition_cols overwrite_level) w"
    and "events w = []"
  shows "no_read_after_delete
           (events (snd (write_parquet E df upsert_key partition_cols overwrite_level w)))"
proof -
  let ?m = "table_to_write E df upsert_key partition_cols overwrite_level"
  from assms obtain evs where evs: "events (snd (?m w)) = evs" "no_read_after_delete evs"
    "\<And>d w'. ?m w = (Inr d, w') \<Longrightarrow> list_ex is_delete evs \<Longrightarrow> \<not> scans d"
    unfolding orderly_def by auto
  obtain r w' where m: "?m w = (r, w')" by (cases "?m w")
  show ?thesis
  proof (cases r)
    case (Inl e)
    with m evs show ?thesis by (simp add: write_parquet_def bind_def)
  next
    case (Inr d)
    from sanitize_and_write_tail[of E d partition_cols w']
    obtain tl where tl: "events (snd (sanitize_and_write E d partition_cols w')) = events w' @ tl"
      "\<not> list_ex is_delete tl" "\<not> scans d \<longrightarrow> \<not> list_ex is_read tl" by blast
    from m evs(1) have ew: "events w' = evs" by simp
    have "no_read_after_delete (evs @ tl)"
      using evs(2) tl(2,3) evs(3)[of d w'] m Inr
      by (auto simp: nrad_append nrad_no_delete)
    with m Inr tl(1) ew show ?thesis by (simp add: write_parquet_def bind_def)
  qed
qed

lemma probe_only_reads:
  assumes "target w = Absent"
  shows "orderly (table_to_write E df upsert_key partition_cols overwrite_level) w"
  unfolding orderly_def
  using probe_absent[OF assms]
  by (cases "dir_error w")
     (auto simp: table_to_write_def bind_def return_def nrad_no_delete)

lemma cleanup_order:
  assumes "target w \<noteq> Absent" "\<not> readable (target w)" "\<not> scans df"
  shows "orderly (table_to_write E df upsert_key partition_cols overwrite_level) w"
  unfolding orderly_def
  using probe_unreadable[OF assms(1,2)] assms(3)
  by (auto simp: table_to_write_def bind_def return_def)

lemma reconcile_start:
  assumes "target w = Dataset sch parts" "parts \<noteq> []"
  shows "reconcile_with_existing E df upsert_key partition_cols overwrite_level w =
    table_for_mode E df (fst (reconcile E sch df)) (snd (reconcile E sch df))
      upsert_key partition_cols overwrite_level
      (w\<lparr> events := events w @ [ListDir, CollectSchema] @ incoming_reads E sch df \<rparr>)"
  using assms
  by (simp add: reconcile_with_existing_def bind_def scan_parquet_def collect_schema_def
      record_event_def resolve_incoming_run split: prod.splits)

lemma orderly_after_reads:
  assumes "m w = f (w\<lparr> events := events w @ pre \<rparr>)"
    and "\<not> list_ex is_delete pre"
    and "orderly f (w\<lparr> events := events w @ pre \<rparr>)"
  shows "orderly m w"
proof -
  from assms(3) obtain evs where
    evs: "events (snd (f (w\<lparr> events := events w @ pre \<rparr>))) = (events w @ pre) @ evs"
      "no_read_after_delete evs"
      "\<And>d w'. f (w\<lparr> events := events w @ pre \<rparr>) = (Inr d, w') \<Longrightarrow> list_ex is_delete evs \<Longrightarrow> \<not> scans d"
    unfolding orderly_def by auto
  show ?thesis
    unfolding orderly_def
  proof (intro exI[of _ "pre @ evs"] conjI allI impI)
    show "events (snd (m w)) = events w @ pre @ evs" using evs(1) assms(1) by simp
    show "no_read_after_delete (pre @ evs)"
      using assms(2) evs(2) by (simp add: nrad_append nrad_no_delete)
    fix d w'
    assume "m w = (Inr d, w')" "list_ex is_delete (pre @ evs)"
    then show "\<not> scans d" using evs(3)[of d w'] assms(1,2) by simp
  qed
qed

lemma existing_order:
  assumes d: "target w = Dataset sch parts" "parts \<noteq> []"
    and mode: "\<And>w'. target w' = target w \<Longrightarrow> 
            orderly (table_for_mode E df (fst (reconcile E sch df)) (snd (reconcile E sch df))
                       upsert_key partition_cols overwrite_level) w'"
  shows "orderly (table_to_write E df upsert_key partition_cols overwrite_level) w"
proof (cases "dir_error w")
  case (Some e)
  show ?thesis
    unfolding orderly_def table_to_write_no_directory[OF d Some]
    by (auto simp: nrad_no_delete)
next
  case None
  let ?pre = "[Exists [], ListDir, CollectSchema] @ dir_events w @ [ListDir, CollectSchema]
              @ incoming_reads E sch df"
  let ?f = "table_for_mode E df (fst (reconcile E sch df)) (snd (reconcile E sch df))
                       upsert_key partition_cols overwrite_level"
  have "table_to_write E df upsert_key partition_cols overwrite_level w =
          ?f (w\<lparr> events := events w @ ?pre \<rparr>)"
    unfolding table_to_write_existing[OF d None]
    using d by (subst reconcile_start[of _ sch parts]) simp_all
  moreover have "\<not> list_ex is_delete ?pre" by simp
  moreover have "orderly ?f (w\<lparr> events := events w @ ?pre \<rparr>)" by (rule mode) simp
  ultimately show ?thesis by (rule orderly_after_reads)
qed

lemma full_order:
  assumes "overwrite_level = Some Full" "\<not> scans lazy_df"
  shows "orderly (table_for_mode E df lazy_df schemas_match upsert_key partition_cols overwrite_level) w"
  using assms by (simp add: orderly_def table_for_mode_def io_defs)

lemma unconfigured_order:
  assumes "overwrite_level = Some Partition" "\<not> given partition_cols"
  shows "orderly (table_for_mode E df lazy_df schemas_match upsert_key partition_cols overwrite_level) w"
  using assms by (simp add: orderly_def table_for_mode_def io_defs)

lemma no_mode_order:
  assumes "overwrite_level = None" "\<not> given upsert_key"
  shows "orderly (table_for_mode E df lazy_df schemas_match upsert_key partition_cols overwrite_level) w"
  using assms by (simp add: orderly_def table_for_mode_def io_defs)

lemma whole_upsert_order:
  assumes "overwrite_level = None" "given upsert_key" "\<not> (given partition_cols \<and> schemas_match)"
  shows "orderly (table_for_mode E df lazy_df schemas_match upsert_key partition_cols overwrite_level) w"
  using assms
  by (auto simp: orderly_def table_for_mode_def io_defs split: sum.splits target.splits)

lemma tuples_scans [simp]: "tuples E (a\<lparr> scans := b \<rparr>) = tuples E a"
  by (simp add: tuples_def columns_def)

lemma concat_scans:
  "concat_diagonal_relaxed E a b = Inr U \<Longrightarrow> scans U = (scans a \<or> scans b)"
  by (auto simp: concat_diagonal_relaxed_def Let_def split: if_splits)

lemma partition_fresh_order:
  assumes "overwrite_level = Some Partition" "given partition_cols"
    and "\<not> list_ex is_delete
           (removal_events E (names partition_cols)
              (case partitions_affected_df E lazy_df (names partition_cols) of
                 Inl e \<Rightarrow> [] | Inr affected \<Rightarrow> tuples E affected) (target w))"
  shows "orderly (table_for_mode E df lazy_df schemas_match upsert_key partition_cols overwrite_level) w"
proof (cases "partitions_affected_df E lazy_df (names partition_cols)")
  case (Inl e)
  with assms show ?thesis by (simp add: orderly_def table_for_mode_def io_defs)
next
  case (Inr a)
  with assms(3) have nd: "\<not> list_ex is_delete (removal_events E (names partition_cols) (tuples E a) (target w))"
    by simp
  show ?thesis
    using assms(1,2) Inr nd
    by (auto simp: orderly_def table_for_mode_def io_defs remove_partitions_run nrad_append
        nrad_no_delete split: sum.splits target.splits)
qed

lemma scoped_upsert_order:
  assumes "overwrite_level = None" "given upsert_key" "given partition_cols" "schemas_match"
    and "no_read_after_delete
           (removal_events E (names partition_cols)
              (case partitions_affected_df E lazy_df (names partition_cols) of
                 Inl e \<Rightarrow> [] | Inr affected \<Rightarrow> tuples E affected) (target w)
            @ (if scans lazy_df then [CollectIncoming] else []))"
  shows "orderly (table_for_mode E df lazy_df schemas_match upsert_key partition_cols overwrite_level) w"
proof (cases "partitions_affected_df E lazy_df (names partition_cols)")
  case (Inl e)
  with assms show ?thesis by (simp add: orderly_def table_for_mode_def io_defs)
next
  case (Inr a)
  let ?R = "removal_events E (names partition_cols) (tuples E a) (target w)"
  from assms(5) Inr have o: "no_read_after_delete ?R" "list_ex is_delete ?R \<longrightarrow> \<not> scans lazy_df"
    by (auto simp: nrad_append split: if_splits)
  show ?thesis
    using assms(1-4) Inr o
    by (auto simp: orderly_def table_for_mode_def io_defs remove_partitions_run nrad_append
        nrad_no_delete split: sum.splits target.splits dest!: concat_scans)
qed

lemma emits_return: "emits p (return x)"
  by (simp add: emits_def return_def)

lemma emits_raise: "emits p (raise e)"
  by (simp add: emits_def raise_def)

lemma emits_lift: "emits p (lift r)"
  by (cases r) (simp_all add: lift_def emits_return emits_raise)

lemma emits_bind:
  assumes "emits p m" and "\<And>x. emits p (f x)"
  shows "emits p (bind m f)"
  unfolding emits_def
proof
  fix w
  from assms(1) obtain a where a: "events (snd (m w)) = events w @ a" "list_all p a"
    unfolding emits_def by blast
  show "\<exists>evs. events (snd (bind m f w)) = events w @ evs \<and> list_all p evs"
  proof (cases "m w")
    case (Pair r w')
    show ?thesis
    proof (cases r)
      case (Inl e)
      with Pair a show ?thesis by (auto simp: bind_def)
    next
      case (Inr x)
      from assms(2)[of x] obtain b where b: "events (snd (f x w')) = events w' @ b" "list_all p b"
        unfolding emits_def by blast
      with Pair Inr a have "events (snd (bind m f w)) = events w @ (a @ b)" "list_all p (a @ b)"
        by (auto simp: bind_def)
      then show ?thesis by blast
    qed
  qed
qed

lemma emits_try_except:
  assumes "emits p m" and "\<And>e. emits p (h e)"
  shows "emits p (try_except m h)"
  unfolding emits_def
proof
  fix w
  from assms(1) obtain a where a: "events (snd (m w)) = events w @ a" "list_all p a"
    unfolding emits_def by blast
  show "\<exists>evs. events (snd (try_except m h w)) = events w @ evs \<and> list_all p evs"
  proof (cases "m w")
    case (Pair r w')
    show ?thesis
    proof (cases r)
      case (Inr x)
      with Pair a show ?thesis by (auto simp: try_except_def)
    next
      case (Inl e)
      from assms(2)[of e] obtain b where b: "events (snd (h e w')) = events w' @ b" "list_all p b"
        unfolding emits_def by blast
      with Pair Inl a have "events (snd (try_except m h w)) = events w @ (a @ b)"
        "list_all p (a @ b)"
        by (auto simp: try_except_def)
      then show ?thesis by blast
    qed
  qed
qed

lemma emits_record: "p ev \<Longrightarrow> emits p (record_event ev)"
  by (simp add: emits_def record_event_def)

lemma emits_silent: "(\<And>w. events (snd (g w)) = events w) \<Longrightarrow> emits p g"
  by (simp add: emits_def)

lemma emits_if: "emits p a \<Longrightarrow> emits p b \<Longrightarrow> emits p (if c then a else b)"
  by simp

lemma emits_fs_exists: "p (Exists segs) \<Longrightarrow> emits p (fs_exists segs)"
  unfolding fs_exists_def by (intro emits_bind emits_record emits_silent) simp_all

lemma emits_scan_parquet: "p ListDir \<Longrightarrow> emits p scan_parquet"
  unfolding scan_parquet_def by (intro emits_bind emits_record emits_silent) simp_all

lemma emits_collect_schema: "p CollectSchema \<Longrightarrow> emits p collect_schema"
  unfolding collect_schema_def
  by (intro emits_bind emits_record emits_silent) (simp_all split: target.splits)

lemma emits_collect_existing: "p CollectData \<Longrightarrow> emits p collect_existing"
  unfolding collect_existing_def
  by (intro emits_bind emits_record emits_silent) (simp_all split: target.splits)

lemma emits_exists_currentDir: "p ExistsCurrentDir \<Longrightarrow> emits p exists_currentDir"
  unfolding exists_currentDir_def by (intro emits_bind emits_record emits_silent) simp_all

lemma emits_fs_mkdir: "p Mkdir \<Longrightarrow> emits p fs_mkdir"
  unfolding fs_mkdir_def
  by (intro emits_bind emits_record emits_silent) (simp_all split: mkdir_outcome.splits)

lemma emits_remove_dir: "p (RemoveDir segs) \<Longrightarrow> emits p (remove_dir segs)"
  unfolding remove_dir_def by (intro emits_bind emits_record emits_silent) simp_all

lemma emits_resolve_schema: "p ResolveIncoming \<Longrightarrow> emits p (resolve_schema d)"
  unfolding resolve_schema_def by (intro emits_if emits_record emits_return)

lemma emits_collect: "p CollectIncoming \<Longrightarrow> emits p (collect d)"
  unfolding collect_def by (intro emits_bind emits_if emits_record emits_return emits_raise)

lemma emits_resolve_incoming: "p ResolveIncoming \<Longrightarrow> emits p (resolve_incoming E sch d)"
  unfolding resolve_incoming_def
  by (cases "with_columns_cast E d sch")
     (simp_all add: emits_bind emits_if emits_resolve_schema emits_return)

lemma emits_remove_partitions:
  "(\<And>segs. p (Exists segs)) \<Longrightarrow> (\<And>segs. p (RemoveDir segs)) \<Longrightarrow>
   emits p (remove_partitions E pcs ps)"
proof (induction ps)
  case Nil
  show ?case by (simp add: emits_return)
next
  case (Cons a ps)
  show ?case
    unfolding remove_partitions.simps
    by (intro emits_bind emits_if emits_fs_exists emits_remove_dir emits_return Cons)
qed

lemma emits_probe_existing:
  assumes "\<And>ev. \<not> is_write ev \<Longrightarrow> p ev"
  shows "emits p probe_existing"
  unfolding probe_existing_def
  by (intro emits_try_except emits_bind emits_if emits_fs_exists emits_scan_parquet
      emits_collect_schema emits_exists_currentDir emits_fs_mkdir emits_remove_dir
      emits_return emits_raise assms) simp_all

lemma emits_table_for_mode:
  assumes "\<And>ev. \<not> is_write ev \<Longrightarrow> p ev"
  shows "emits p (table_for_mode E df lazy_df schemas_match upsert_key partition_cols overwrite_level)"
  unfolding table_for_mode_def
  by (intro emits_bind emits_if emits_scan_parquet emits_collect_existing emits_collect
      emits_remove_dir emits_remove_partitions emits_return emits_raise emits_lift assms)
     simp_all

lemma emits_reconcile_with_existing:
  assumes "\<And>ev. \<not> is_write ev \<Longrightarrow> p ev"
  shows "emits p (reconcile_with_existing E df upsert_key partition_cols overwrite_level)"
  unfolding reconcile_with_existing_def case_prod_beta Let_def
  by (intro emits_bind emits_scan_parquet emits_collect_schema emits_resolve_incoming
      emits_table_for_mode assms) simp_all

lemma emits_table_to_write:
  "emits (\<lambda>ev. \<not> is_write ev) (table_to_write E df upsert_key partition_cols overwrite_level)"
  unfolding table_to_write_def
  by (intro emits_bind emits_if emits_probe_existing emits_reconcile_with_existing emits_return)

lemma write_before_no_removal:
  assumes that: "events w = []"
  shows "no_delete_after_write
     (events (snd (write_parquet E df upsert_key partition_cols overwrite_level w)))"
proof -
  let ?m = "table_to_write E df upsert_key partition_cols overwrite_level"
  from emits_table_to_write[of E df upsert_key partition_cols overwrite_level] that
  have nw: "list_all (\<lambda>ev. \<not> is_write ev) (events (snd (?m w)))"
    unfolding emits_def by (metis append_Nil)
  obtain r w' where m: "?m w = (r, w')" by (cases "?m w")
  show ?thesis
  proof (cases r)
    case (Inl e)
    with m nw show ?thesis
      using ndaw_append[of "events w'" "[]"] by (simp add: write_parquet_def bind_def)
  next
    case (Inr d)
    from sanitize_and_write_tail[of E d partition_cols w']
    obtain tl where tl: "events (snd (sanitize_and_write E d partition_cols w')) = events w' @ tl"
      "\<not> list_ex is_delete tl" by blast
    from tl(2) have "list_all (\<lambda>ev. \<not> is_delete ev) tl" by (simp add: list_all_iff list_ex_iff)
    with nw m have "no_delete_after_write (events w' @ tl)" by (intro ndaw_append) simp_all
    with m Inr tl(1) show ?thesis by (simp add: write_parquet_def bind_def)
  qed
qed

text \<open>
  Claim C9, as the code has it. Within one call, no removal follows the final write, in
  every mode and whether the call succeeds or fails. And no read of the state on disk
  follows a removal of the call, the reads of a scanning incoming plan among the reads,
  in these calls: where nothing is at \<^verbatim>\<open>path\<close>; where \<^verbatim>\<open>path\<close> cannot be read and the
  incoming table is in memory; and over readable data, in a full overwrite of a table in
  memory, in a call that is not a full overwrite and has no partition columns or has
  neither a mode nor an upsert key, in a partition overwrite that finds no directory of
  an affected partition, and in an upsert with partition columns whose schemas do not
  match after the reconciliation, or in which no partition directory is probed after
  another one has been removed and, when one is removed, the incoming table is in memory.
\<close>

theorem removals_precede_the_write:
  "no_delete_after_write
     (events (snd (write_parquet E df upsert_key partition_cols overwrite_level
                     (w\<lparr> events := [] \<rparr>))))
   \<and> (target w = Absent
       \<or> (\<not> readable (target w) \<and> \<not> scans df)
       \<or> (readable (target w)
           \<and> (overwrite_level = Some Full \<and> \<not> scans df
               \<or> overwrite_level \<noteq> Some Full
                  \<and> (\<not> given partition_cols \<or> overwrite_level = None \<and> \<not> given upsert_key)
               \<or> overwrite_level = Some Partition \<and> given partition_cols
                  \<and> \<not> list_ex is_delete
                        (removal_events E (names partition_cols)
                           (affected_partitions E df partition_cols (target w)) (target w))
               \<or> overwrite_level = None \<and> given upsert_key \<and> given partition_cols
                  \<and> (\<not> schemas_match_at E df (target w)
                      \<or> no_read_after_delete
                           (removal_events E (names partition_cols)
                              (affected_partitions E df partition_cols (target w)) (target w)
                            @ (if scans df then [CollectIncoming] else [])))))
      \<longrightarrow> no_read_after_delete
            (events (snd (write_parquet E df upsert_key partition_cols overwrite_level
                            (w\<lparr> events := [] \<rparr>)))))"
proof (intro conjI impI)
  let ?w = "w\<lparr> events := [] \<rparr>"
  show "no_delete_after_write
     (events (snd (write_parquet E df upsert_key partition_cols overwrite_level ?w)))"
    by (rule write_before_no_removal) simp
  assume c: "target w = Absent
       \<or> (\<not> readable (target w) \<and> \<not> scans df)
       \<or> (readable (target w)
           \<and> (overwrite_level = Some Full \<and> \<not> scans df
               \<or> overwrite_level \<noteq> Some Full
                  \<and> (\<not> given partition_cols \<or> overwrite_level = None \<and> \<not> given upsert_key)
               \<or> overwrite_level = Some Partition \<and> given partition_cols
                  \<and> \<not> list_ex is_delete
                        (removal_events E (names partition_cols)
                           (affected_partitions E df partition_cols (target w)) (target w))
               \<or> overwrite_level = None \<and> given upsert_key \<and> given partition_cols
                  \<and> (\<not> schemas_match_at E df (target w)
                      \<or> no_read_after_delete
                           (removal_events E (names partition_cols)
                              (affected_partitions E df partition_cols (target w)) (target w)
                            @ (if scans df then [CollectIncoming] else [])))))"
  have "orderly (table_to_write E df upsert_key partition_cols overwrite_level) ?w"
  proof (cases "readable (target w)")
    case False
    show ?thesis
    proof (cases "target w = Absent")
      case True
      then show ?thesis by (intro probe_only_reads) simp
    next
      case nonabsent: False
      with c False have "\<not> scans df" by blast
      with nonabsent False show ?thesis by (intro cleanup_order) simp_all
    qed
  next
    case True
    then obtain sch parts where d: "target w = Dataset sch parts" "parts \<noteq> []"
      by (auto simp: readable_def split: target.splits)
    let ?L = "fst (reconcile E sch df)"
    let ?M = "snd (reconcile E sch df)"
    have a: "affected_partitions E df partition_cols (target w) =
               (case partitions_affected_df E ?L (names partition_cols) of
                  Inl e \<Rightarrow> [] | Inr affected \<Rightarrow> tuples E affected)"
      by (simp add: affected_partitions_def reconciled_def d)
    have sm: "schemas_match_at E df (target w) = ?M"
      by (simp add: schemas_match_at_def d)
    have sc: "scans ?L = scans df" by (rule reconcile_scans)
    from c True d
    consider (full) "overwrite_level = Some Full" "\<not> scans df"
      | (plain) "overwrite_level \<noteq> Some Full"
          "\<not> given partition_cols \<or> overwrite_level = None \<and> \<not> given upsert_key"
      | (fresh) "overwrite_level = Some Partition" "given partition_cols"
          "\<not> list_ex is_delete
                (removal_events E (names partition_cols)
                   (affected_partitions E df partition_cols (target w)) (target w))"
      | (whole) "overwrite_level = None" "given upsert_key" "given partition_cols" "\<not> ?M"
      | (scoped) "overwrite_level = None" "given upsert_key" "given partition_cols" "?M"
          "no_read_after_delete
                           (removal_events E (names partition_cols)
                              (affected_partitions E df partition_cols (target w)) (target w)
                            @ (if scans df then [CollectIncoming] else []))"
      unfolding sm by auto
    then have "\<And>w'. target w' = target w \<Longrightarrow>
            orderly (table_for_mode E df ?L ?M upsert_key partition_cols overwrite_level) w'"
    proof cases
      case full
      fix w' :: "'a world"
      show "orderly (table_for_mode E df ?L ?M upsert_key partition_cols overwrite_level) w'"
        using full sc by (intro full_order) simp_all
    next
      case plain
      fix w' :: "'a world"
      show "orderly (table_for_mode E df ?L ?M upsert_key partition_cols overwrite_level) w'"
      proof (cases overwrite_level)
        case None
        show ?thesis
        proof (cases "given upsert_key")
          case False
          with None show ?thesis by (intro no_mode_order)
        next
          case True
          with None plain(2) show ?thesis by (intro whole_upsert_order) simp_all
        qed
      next
        case (Some level)
        with plain(1) have p: "overwrite_level = Some Partition" by (cases level) simp_all
        with plain(2) show ?thesis by (intro unconfigured_order) simp_all
      qed
    next
      case fresh
      fix w' :: "'a world"
      assume "target w' = target w"
      with fresh a show "orderly (table_for_mode E df ?L ?M upsert_key partition_cols overwrite_level) w'"
        by (intro partition_fresh_order) simp_all
    next
      case whole
      fix w' :: "'a world"
      show "orderly (table_for_mode E df ?L ?M upsert_key partition_cols overwrite_level) w'"
        using whole by (intro whole_upsert_order) simp_all
    next
      case scoped
      fix w' :: "'a world"
      assume "target w' = target w"
      with scoped a sc show "orderly (table_for_mode E df ?L ?M upsert_key partition_cols overwrite_level) w'"
        by (intro scoped_upsert_order) simp_all
    qed
    then show ?thesis
      using d by (intro existing_order[of _ sch parts]) simp_all
  qed
  then show "no_read_after_delete
            (events (snd (write_parquet E df upsert_key partition_cols overwrite_level ?w)))"
    by (rule order_from_table) simp
qed

lemmas run_defs =
  write_parquet_def table_to_write_def probe_existing_def reconcile_with_existing_def
  table_for_mode_def resolve_incoming_def sanitize_and_write_def io_defs dir_exists_def
  given_def names_def storage_def reconcile_def partitions_affected_df_def select_def
  unique_def tuples_def columns_def cell_def partition_path_def remove_target_def
  join_inner_def join_anti_def join_check_def key_match_def concat_diagonal_relaxed_def
  union_schema_def pad_row_def pad_fails_def cast_cell_def cast_or_keep_def
  transform_data_removing_empty_structs_def analyze_schema_def written_target_def
  partition_files_def partition_key_def writer_path_def List.map_filter_simps

text \<open>
  An upsert with partition columns whose incoming row lies in the one partition
  \<^verbatim>\<open>region=US\<close>: the call reads the dataset, probes and removes that directory, and
  writes.
\<close>

theorem removals_precede_the_write_witness:
  "readable (target (storage region_existing))
   \<and> given (Some [''id'']) \<and> given (Some [''region''])
   \<and> removal_events plain_engine [''region'']
        (affected_partitions plain_engine region_incoming (Some [''region'']) region_existing)
        region_existing = [Exists [''region=US''], RemoveDir [''region=US'']]
   \<and> events (snd (write_parquet plain_engine region_incoming (Some [''id'']) (Some [''region''])
                    None ((storage region_existing)\<lparr> events := [] \<rparr>))) =
       [Exists [], ListDir, CollectSchema, ExistsCurrentDir, ListDir, CollectSchema,
        CollectData, Exists [''region=US''], RemoveDir [''region=US''],
        WriteParquet \<lparr> schema = region_schema,
                       rows = [[(''id'', Some ''3''), (''region'', Some ''US'')],
                               [(''id'', Some ''1''), (''region'', Some ''US'')]],
                       failing = [], scans = False \<rparr> [''region'']]
   \<and> no_delete_after_write
       (events (snd (write_parquet plain_engine region_incoming (Some [''id'']) (Some [''region''])
                       None ((storage region_existing)\<lparr> events := [] \<rparr>))))
   \<and> no_read_after_delete
       (events (snd (write_parquet plain_engine region_incoming (Some [''id'']) (Some [''region''])
                       None ((storage region_existing)\<lparr> events := [] \<rparr>))))"
proof -
  have r: "readable (target (storage region_existing))"
    by (simp add: storage_def region_existing_def readable_def)
  have g: "given (Some [''id''])" "given (Some [''region''])" by (simp_all add: given_def)
  have t: "target (storage region_existing) = region_existing" by (simp add: storage_def)
  have s: "\<not> scans region_incoming" by (simp add: region_incoming_def)
  have a: "removal_events plain_engine [''region'']
        (affected_partitions plain_engine region_incoming (Some [''region'']) region_existing)
        region_existing = [Exists [''region=US''], RemoveDir [''region=US'']]"
    by (simp add: affected_partitions_def reconciled_def region_existing_def region_incoming_def
        region_schema_def run_defs plain_engine_def)
  have ev: "events (snd (write_parquet plain_engine region_incoming (Some [''id'']) (Some [''region''])
                    None ((storage region_existing)\<lparr> events := [] \<rparr>))) =
       [Exists [], ListDir, CollectSchema, ExistsCurrentDir, ListDir, CollectSchema,
        CollectData, Exists [''region=US''], RemoveDir [''region=US''],
        WriteParquet \<lparr> schema = region_schema,
                       rows = [[(''id'', Some ''3''), (''region'', Some ''US'')],
                               [(''id'', Some ''1''), (''region'', Some ''US'')]],
                       failing = [], scans = False \<rparr> [''region'']]"
    by (simp add: run_defs region_existing_def region_incoming_def region_schema_def
        plain_engine_def)
  have n: "names (Some [''region'']) = [''region'']" by (simp add: names_def)
  from removals_precede_the_write[of plain_engine region_incoming "Some [''id'']"
      "Some [''region'']" None "storage region_existing"] r g s a t n
  have "no_delete_after_write
       (events (snd (write_parquet plain_engine region_incoming (Some [''id'']) (Some [''region''])
                       None ((storage region_existing)\<lparr> events := [] \<rparr>))))
     \<and> no_read_after_delete
       (events (snd (write_parquet plain_engine region_incoming (Some [''id'']) (Some [''region''])
                       None ((storage region_existing)\<lparr> events := [] \<rparr>))))"
    by simp
  with r g a ev show ?thesis by blast
qed

text \<open>
  The claim as the specification words it fails in five ways. A partition overwrite
  lists the dataset directory again after it has removed the partition \<^verbatim>\<open>region=US\<close>.
  An upsert whose rows lie in two partitions probes the second directory after it has
  removed the first. A full overwrite resolves and runs a scanning incoming plan only
  after it has removed \<^verbatim>\<open>path\<close>; so does a call that has cleaned up an unreadable
  \<^verbatim>\<open>path\<close>; and so does an upsert within one partition, after it has removed the
  directory of that partition.
\<close>

theorem reads_before_removals_counterexample:
  "events (snd (write_parquet plain_engine region_incoming None (Some [''region''])
                  (Some Partition) (storage region_existing))) =
     [Exists [], ListDir, CollectSchema, ExistsCurrentDir, ListDir, CollectSchema,
      Exists [''region=US''], RemoveDir [''region=US''], ListDir,
      WriteParquet \<lparr> schema = region_schema,
                     rows = [[(''id'', Some ''3''), (''region'', Some ''US'')]],
                     failing = [], scans = False \<rparr> [''region'']]
   \<and> \<not> no_read_after_delete
         (events (snd (write_parquet plain_engine region_incoming None (Some [''region''])
                         (Some Partition) (storage region_existing))))
   \<and> events (snd (write_parquet plain_engine region_incoming_two (Some [''id''])
                    (Some [''region'']) None (storage region_existing))) =
     [Exists [], ListDir, CollectSchema, ExistsCurrentDir, ListDir, CollectSchema,
      CollectData, Exists [''region=US''], RemoveDir [''region=US''],
      Exists [''region=EU''], RemoveDir [''region=EU''],
      WriteParquet \<lparr> schema = region_schema,
                     rows = [[(''id'', Some ''3''), (''region'', Some ''US'')],
                             [(''id'', Some ''4''), (''region'', Some ''EU'')],
                             [(''id'', Some ''1''), (''region'', Some ''US'')],
                             [(''id'', Some ''2''), (''region'', Some ''EU'')]],
                     failing = [], scans = False \<rparr> [''region'']]
   \<and> \<not> no_read_after_delete
         (events (snd (write_parquet plain_engine region_incoming_two (Some [''id''])
                         (Some [''region'']) None (storage region_existing))))
   \<and> events (snd (write_parquet plain_engine (scanning kv_incoming) None None (Some Full)
                    (storage kv_existing))) =
     [Exists [], ListDir, CollectSchema, ExistsCurrentDir, ListDir, CollectSchema,
      ResolveIncoming, RemoveDir [], ResolveIncoming, CollectIncoming,
      WriteParquet kv_incoming []]
   \<and> \<not> no_read_after_delete
         (events (snd (write_parquet plain_engine (scanning kv_incoming) None None (Some Full)
                         (storage kv_existing))))
   \<and> events (snd (write_parquet plain_engine (scanning kv_incoming) None None None
                    (storage Unreadable))) =
     [Exists [], ListDir, CollectSchema, RemoveDir [], ResolveIncoming, CollectIncoming,
      WriteParquet kv_incoming []]
   \<and> \<not> no_read_after_delete
         (events (snd (write_parquet plain_engine (scanning kv_incoming) None None None
                         (storage Unreadable))))
   \<and> events (snd (write_parquet plain_engine (scanning region_incoming) (Some [''id''])
                    (Some [''region'']) None (storage region_existing))) =
     [Exists [], ListDir, CollectSchema, ExistsCurrentDir, ListDir, CollectSchema,
      ResolveIncoming, CollectIncoming, CollectData, CollectIncoming,
      Exists [''region=US''], RemoveDir [''region=US''], ResolveIncoming, CollectIncoming,
      WriteParquet \<lparr> schema = region_schema,
                     rows = [[(''id'', Some ''3''), (''region'', Some ''US'')],
                             [(''id'', Some ''1''), (''region'', Some ''US'')]],
                     failing = [], scans = False \<rparr> [''region'']]
   \<and> \<not> no_read_after_delete
         (events (snd (write_parquet plain_engine (scanning region_incoming) (Some [''id''])
                         (Some [''region'']) None (storage region_existing))))"
proof -
  have 1: "events (snd (write_parquet plain_engine region_incoming None (Some [''region''])
                  (Some Partition) (storage region_existing))) =
     [Exists [], ListDir, CollectSchema, ExistsCurrentDir, ListDir, CollectSchema,
      Exists [''region=US''], RemoveDir [''region=US''], ListDir,
      WriteParquet \<lparr> schema = region_schema,
                     rows = [[(''id'', Some ''3''), (''region'', Some ''US'')]],
                     failing = [], scans = False \<rparr> [''region'']]"
    by (simp add: run_defs region_existing_def region_incoming_def region_schema_def
        plain_engine_def)
  have 2: "events (snd (write_parquet plain_engine region_incoming_two (Some [''id''])
                    (Some [''region'']) None (storage region_existing))) =
     [Exists [], ListDir, CollectSchema, ExistsCurrentDir, ListDir, CollectSchema,
      CollectData, Exists [''region=US''], RemoveDir [''region=US''],
      Exists [''region=EU''], RemoveDir [''region=EU''],
      WriteParquet \<lparr> schema = region_schema,
                     rows = [[(''id'', Some ''3''), (''region'', Some ''US'')],
                             [(''id'', Some ''4''), (''region'', Some ''EU'')],
                             [(''id'', Some ''1''), (''region'', Some ''US'')],
                             [(''id'', Some ''2''), (''region'', Some ''EU'')]],
                     failing = [], scans = False \<rparr> [''region'']]"
    by (simp add: run_defs region_existing_def region_incoming_two_def region_schema_def
        plain_engine_def)
  have 3: "events (snd (write_parquet plain_engine (scanning kv_incoming) None None (Some Full)
                    (storage kv_existing))) =
     [Exists [], ListDir, CollectSchema, ExistsCurrentDir, ListDir, CollectSchema,
      ResolveIncoming, RemoveDir [], ResolveIncoming, CollectIncoming,
      WriteParquet kv_incoming []]"
    by (simp add: run_defs kv_existing_def kv_incoming_def kv_schema_def scanning_def
        plain_engine_def)
  have 4: "events (snd (write_parquet plain_engine (scanning kv_incoming) None None None
                    (storage Unreadable))) =
     [Exists [], ListDir, CollectSchema, RemoveDir [], ResolveIncoming, CollectIncoming,
      WriteParquet kv_incoming []]"
    by (simp add: run_defs kv_incoming_def kv_schema_def scanning_def plain_engine_def)
  have 5: "events (snd (write_parquet plain_engine (scanning region_incoming) (Some [''id''])
                    (Some [''region'']) None (storage region_existing))) =
     [Exists [], ListDir, CollectSchema, ExistsCurrentDir, ListDir, CollectSchema,
      ResolveIncoming, CollectIncoming, CollectData, CollectIncoming,
      Exists [''region=US''], RemoveDir [''region=US''], ResolveIncoming, CollectIncoming,
      WriteParquet \<lparr> schema = region_schema,
                     rows = [[(''id'', Some ''3''), (''region'', Some ''US'')],
                             [(''id'', Some ''1''), (''region'', Some ''US'')]],
                     failing = [], scans = False \<rparr> [''region'']]"
    by (simp add: run_defs region_existing_def region_incoming_def region_schema_def
        scanning_def plain_engine_def)
  show ?thesis unfolding 1 2 3 4 5 by simp
qed

section \<open>Partition overwrite\<close>

lemma removed_after_Dataset:
  "\<forall>p \<in> set ps. partition_path E pcs p \<noteq> [] \<Longrightarrow>
   removed_after E pcs ps (Dataset sch parts) =
     Dataset sch (filter (\<lambda>(d, rs). \<not> (\<exists>p \<in> set ps. prefix (partition_path E pcs p) d)) parts)"
proof (induction ps arbitrary: parts)
  case Nil
  show ?case by simp
next
  case (Cons p ps)
  let ?q = "partition_path E pcs p"
  have q: "?q \<noteq> []" using Cons.prems by simp
  have rest: "\<forall>p \<in> set ps. partition_path E pcs p \<noteq> []" using Cons.prems by simp
  have same: "\<not> dir_exists (Dataset sch parts) ?q \<Longrightarrow>
                filter (\<lambda>(d, rs). \<not> prefix ?q d) parts = parts"
    using q by (auto simp: dir_exists_def filter_id_conv)
  have step: "(if dir_exists (Dataset sch parts) ?q
               then remove_target (Dataset sch parts) ?q else Dataset sch parts) =
              Dataset sch (filter (\<lambda>(d, rs). \<not> prefix ?q d) parts)"
    using q same by (simp add: remove_target_def)
  show ?case
    unfolding removed_after.simps step Cons.IH[OF rest]
    by (auto intro!: filter_cong simp: case_prod_beta)
qed

lemma map_of_map_values:
  "map_of (map (\<lambda>(n, v). (n, g n v)) r) c = map_option (g c) (map_of r c)"
  by (induction r) auto

lemma cell_select_row:
  "c \<in> set cols \<Longrightarrow> cell E (map (\<lambda>c. (c, cell E r c)) cols) c = cell E r c"
proof -
  assume "c \<in> set cols"
  then have "map_of (map (\<lambda>c. (c, cell E r c)) cols) c = Some (cell E r c)"
    by (induction cols) auto
  then show ?thesis by (simp add: cell_def)
qed

lemma select_columns:
  "select E df cols = Inr A \<Longrightarrow> columns A = cols"
proof -
  assume a: "select E df cols = Inr A"
  then have all: "\<forall>c \<in> set cols. map_of (schema df) c \<noteq> None"
    by (auto simp: select_def split: if_splits)
  have "map fst (List.map_filter (\<lambda>c. map_option (Pair c) (map_of (schema df) c)) cols) = cols"
    using all by (induction cols) (auto simp: List.map_filter_simps)
  with a show ?thesis by (auto simp: select_def columns_def split: if_splits)
qed

lemma tuples_affected:
  assumes "partitions_affected_df E df pcs = Inr A"
  shows "set (tuples E A) = partition_key E pcs ` set (rows df)"
proof -
  from assms obtain S where S: "select E df pcs = Inr S" and A: "A = unique S"
    by (auto simp: partitions_affected_df_def split: sum.splits)
  have cols: "columns A = pcs" using select_columns[OF S] A by (simp add: unique_def columns_def)
  have rows: "set (rows A) = (\<lambda>r. map (\<lambda>c. (c, cell E r c)) pcs) ` set (rows df)"
    using S A by (auto simp: select_def unique_def split: if_splits)
  have key: "\<And>r. map (cell E (map (\<lambda>c. (c, cell E r c)) pcs)) pcs = map (cell E r) pcs"
    by (simp add: cell_select_row)
  show ?thesis
    unfolding tuples_def cols set_map rows image_image key partition_key_def ..
qed

lemma partition_path_nonempty:
  assumes "partitions_affected_df E df pcs = Inr A" "pcs \<noteq> []"
  shows "\<forall>p \<in> set (tuples E A). partition_path E pcs p \<noteq> []"
proof
  fix p assume "p \<in> set (tuples E A)"
  then obtain r where "p = partition_key E pcs r" using tuples_affected[OF assms(1)] by auto
  then have "length p = length pcs" by (simp add: partition_key_def)
  with assms(2) show "partition_path E pcs p \<noteq> []"
    by (cases pcs; cases p) (simp_all add: partition_path_def)
qed

lemma given_names: "given pcs \<Longrightarrow> names pcs \<noteq> []"
  by (auto simp: given_def names_def split: option.splits)

lemma partition_rows_filter:
  "\<forall>rs. P (d, rs) \<Longrightarrow>
   partition_rows (Dataset sch (filter P parts)) d = partition_rows (Dataset sch parts) d"
proof -
  assume a: "\<forall>rs. P (d, rs)"
  have "filter (\<lambda>(d', rs). d' = d) (filter P parts) = filter (\<lambda>(d', rs). d' = d) parts"
    using a by (induction parts) auto
  then show ?thesis by (simp add: partition_rows_def)
qed

lemma partition_rows_append:
  "d \<notin> fst ` set files \<Longrightarrow>
   partition_rows (Dataset sch (parts @ files)) d = partition_rows (Dataset sch parts) d"
proof -
  assume "d \<notin> fst ` set files"
  then have "filter (\<lambda>(d', rs). d' = d) files = []"
    by (induction files) auto
  then show ?thesis by (simp add: partition_rows_def)
qed

lemma partition_files_dirs:
  "fst ` set (partition_files E pcs rs) = writer_path E pcs ` partition_key E pcs ` set rs"
  by (auto simp: partition_files_def image_iff)

text \<open>
  What the end of the call leaves of a dataset when partition columns are given: the
  storage as it was, or with the files of the sanitized table added.
\<close>

lemma sanitize_and_write_outcome:
  assumes "target w = Dataset sch parts" "given partition_cols"
  shows "\<exists>evs. \<not> list_ex is_delete evs \<and>
    (snd (sanitize_and_write E df partition_cols w) = w\<lparr> events := events w @ evs \<rparr>
     \<or> (\<exists>W. transform_data_removing_empty_structs E df = Inr W \<and>
          snd (sanitize_and_write E df partition_cols w) =
            w\<lparr> target := Dataset sch (parts @ partition_files E (names partition_cols) (rows W)),
               events := events w @ evs \<rparr>))"
proof (cases "transform_data_removing_empty_structs E df")
  case (Inl e)
  then have "snd (sanitize_and_write E df partition_cols w) =
               w\<lparr> events := events w @ (if scans df then [ResolveIncoming] else []) \<rparr>"
    by (simp add: sanitize_and_write_def io_defs)
  then show ?thesis by (intro exI[of _ "if scans df then [ResolveIncoming] else []"]) simp
next
  case (Inr W)
  have ne: "names partition_cols \<noteq> []" using assms(2) by (rule given_names)
  let ?r = "if scans df then [ResolveIncoming] else []"
  let ?c = "if scans W then [CollectIncoming] else []"
  show ?thesis
  proof (cases "failing W \<noteq> []")
    case True
    with Inr have "snd (sanitize_and_write E df partition_cols w) = w\<lparr> events := events w @ ?r @ ?c \<rparr>"
      by (simp add: sanitize_and_write_def io_defs)
    then show ?thesis by (intro exI[of _ "?r @ ?c"]) simp
  next
    case False
    let ?W = "W\<lparr> scans := False \<rparr>"
    let ?evs = "?r @ ?c @ [WriteParquet ?W (names partition_cols)]"
    have "snd (sanitize_and_write E df partition_cols w) = w\<lparr> events := events w @ ?evs \<rparr>
          \<or> snd (sanitize_and_write E df partition_cols w) =
            w\<lparr> target := Dataset sch (parts @ partition_files E (names partition_cols) (rows W)),
               events := events w @ ?evs \<rparr>"
      using Inr False assms ne
      by (simp add: sanitize_and_write_def io_defs written_target_def)
    with Inr show ?thesis by (intro exI[of _ ?evs]) auto
  qed
qed

lemma partition_overwrite_match_run:
  assumes "target w = Dataset sch parts" "given partition_cols"
    and "partitions_affected_df E lazy_df (names partition_cols) = Inr A"
  shows "table_for_mode E df lazy_df True upsert_key partition_cols (Some Partition) w =
     (if failing A \<noteq> []
      then (Inl InvalidOperationError,
            w\<lparr> events := events w @ (if scans A then [CollectIncoming] else []) \<rparr>)
      else (Inr lazy_df,
            w\<lparr> target := removed_after E (names partition_cols) (tuples E A) (target w),
               events := events w @ (if scans A then [CollectIncoming] else [])
                         @ removal_events E (names partition_cols) (tuples E A) (target w)
                         @ [ListDir] \<rparr>))"
proof -
  have ne: "\<forall>p \<in> set (tuples E A). partition_path E (names partition_cols) p \<noteq> []"
    using partition_path_nonempty[OF assms(3)] given_names[OF assms(2)] by simp
  have nonabsent: "removed_after E (names partition_cols) (tuples E A) (Dataset sch parts) \<noteq> Absent"
    by (simp add: removed_after_Dataset[OF ne])
  show ?thesis
    using assms nonabsent
    by (simp add: table_for_mode_def remove_partitions_run io_defs tuples_def columns_def)
qed

text \<open>
  Claim C5, as the code has it. In a partition overwrite over readable existing data
  whose schema the incoming table has after the reconciliation, take a partition
  directory that is not the directory of a combination of partition values of the
  incoming data: not the directory that line 304 names for the combination of an
  incoming row, nor below it, and not a directory into which the writer puts a row of
  the sanitized incoming table. It keeps its rows, and no removal of this call removes
  it or a directory above it, whether the call succeeds or fails.
\<close>

theorem unaffected_partition_unchanged:
  assumes "target w = Dataset sch parts" and "parts \<noteq> []"
    and "snd (reconcile E sch df)"
    and "\<forall>r \<in> set (rows (fst (reconcile E sch df))).
           \<not> prefix (partition_path E (names partition_cols)
                       (partition_key E (names partition_cols) r)) d"
    and "\<forall>W. transform_data_removing_empty_structs E (fst (reconcile E sch df)) = Inr W \<longrightarrow>
           (\<forall>r \<in> set (rows W).
              writer_path E (names partition_cols) (partition_key E (names partition_cols) r) \<noteq> d)"
  shows "partition_rows
           (target (snd (write_parquet E df upsert_key partition_cols (Some Partition) w))) d
         = partition_rows (target w) d
       \<and> (\<forall>segs. RemoveDir segs
                    \<in> set (drop (length (events w))
                         (events (snd (write_parquet E df upsert_key partition_cols
                                         (Some Partition) w))))
                  \<longrightarrow> \<not> prefix segs d)"
proof (cases "dir_error w")
  case (Some e)
  have "write_parquet E df upsert_key partition_cols (Some Partition) w =
          (Inl e, w\<lparr> events := events w @ [Exists [], ListDir, CollectSchema] @ dir_events w \<rparr>)"
    by (simp add: write_parquet_def table_to_write_no_directory[OF assms(1,2) Some] bind_def)
  then show ?thesis by (auto simp: dir_events_def)
next
  case None
  let ?L = "fst (reconcile E sch df)"
  let ?pcs = "names partition_cols"
  let ?pre = "[Exists [], ListDir, CollectSchema] @ dir_events w @ [ListDir, CollectSchema]
              @ incoming_reads E sch df"
  let ?w1 = "w\<lparr> events := events w @ ?pre \<rparr>"
  let ?end = "snd (write_parquet E df upsert_key partition_cols (Some Partition) w)"
  have pre: "\<forall>segs. RemoveDir segs \<notin> set ?pre"
    by (auto simp: dir_events_def incoming_reads_def split: sum.splits)
  have start: "table_to_write E df upsert_key partition_cols (Some Partition) w =
          table_for_mode E df ?L True upsert_key partition_cols (Some Partition) ?w1"
    unfolding table_to_write_existing[OF assms(1,2) None]
    using assms(1,2,3) by (subst reconcile_start[of _ sch parts]) simp_all
  have t1: "target ?w1 = Dataset sch parts" using assms(1) by simp
  show ?thesis
  proof (cases "given partition_cols")
    case False
    then have "write_parquet E df upsert_key partition_cols (Some Partition) w = (Inl ValueError, ?w1)"
      by (simp add: write_parquet_def start bind_def table_for_mode_def raise_def)
    with pre show ?thesis by simp
  next
    case True
    show ?thesis
    proof (cases "partitions_affected_df E ?L ?pcs")
      case (Inl e)
      with True have "write_parquet E df upsert_key partition_cols (Some Partition) w = (Inl e, ?w1)"
        by (simp add: write_parquet_def start bind_def table_for_mode_def raise_def lift_def)
      with pre show ?thesis by simp
    next
      case (Inr A)
      let ?ci = "if scans A then [CollectIncoming] else []"
      note run = partition_overwrite_match_run[OF t1 True Inr, of df upsert_key]
      show ?thesis
      proof (cases "failing A \<noteq> []")
        case True
        with run have "write_parquet E df upsert_key partition_cols (Some Partition) w =
            (Inl InvalidOperationError, ?w1\<lparr> events := events ?w1 @ ?ci \<rparr>)"
          by (simp add: write_parquet_def start bind_def)
        with pre show ?thesis by simp
      next
        case False
        let ?rem = "removal_events E ?pcs (tuples E A) (Dataset sch parts)"
        let ?parts = "filter (\<lambda>(d, rs). \<not> (\<exists>p \<in> set (tuples E A). prefix (partition_path E ?pcs p) d)) parts"
        let ?w2 = "w\<lparr> target := Dataset sch ?parts,
                       events := events w @ ?pre @ ?ci @ ?rem @ [ListDir] \<rparr>"
        have tup: "set (tuples E A) = partition_key E ?pcs ` set (rows ?L)"
          by (rule tuples_affected[OF Inr])
        have ne: "\<forall>p \<in> set (tuples E A). partition_path E ?pcs p \<noteq> []"
          using partition_path_nonempty[OF Inr] given_names[OF True] by simp
        have away: "\<forall>p \<in> set (tuples E A). \<not> prefix (partition_path E ?pcs p) d"
          using assms(4) tup by auto
        have table: "table_to_write E df upsert_key partition_cols (Some Partition) w = (Inr ?L, ?w2)"
          using run False removed_after_Dataset[OF ne, of sch parts]
          by (simp add: start assms(1))
        then have fin: "?end = snd (sanitize_and_write E ?L partition_cols ?w2)"
          by (simp add: write_parquet_def bind_def)
        have tw: "target ?w2 = Dataset sch ?parts" by simp
        have kept: "partition_rows (Dataset sch ?parts) d = partition_rows (target w) d"
          unfolding assms(1) using away by (intro partition_rows_filter) auto
        have no_removal: "\<forall>segs. RemoveDir segs \<in> set (?pre @ ?ci @ ?rem @ [ListDir]) \<longrightarrow> \<not> prefix segs d"
          using removal_events_only[of _ E ?pcs "tuples E A" "Dataset sch parts"] away pre
          by fastforce
        from sanitize_and_write_outcome[OF tw True, of E ?L]
        obtain evs where evs: "\<not> list_ex is_delete evs"
          and out: "?end = ?w2\<lparr> events := events ?w2 @ evs \<rparr>
            \<or> (\<exists>W. transform_data_removing_empty_structs E ?L = Inr W \<and>
                 ?end = ?w2\<lparr> target := Dataset sch (?parts @ partition_files E ?pcs (rows W)),
                             events := events ?w2 @ evs \<rparr>)"
          unfolding fin by blast
        have evs': "\<forall>segs. RemoveDir segs \<notin> set evs"
          using evs by (auto simp: list_ex_iff)
        from out show ?thesis
        proof
          assume "?end = ?w2\<lparr> events := events ?w2 @ evs \<rparr>"
          with kept no_removal evs' show ?thesis by auto
        next
          assume "\<exists>W. transform_data_removing_empty_structs E ?L = Inr W \<and>
                 ?end = ?w2\<lparr> target := Dataset sch (?parts @ partition_files E ?pcs (rows W)),
                             events := events ?w2 @ evs \<rparr>"
          then obtain W where W: "transform_data_removing_empty_structs E ?L = Inr W"
            and e: "?end = ?w2\<lparr> target := Dataset sch (?parts @ partition_files E ?pcs (rows W)),
                             events := events ?w2 @ evs \<rparr>" by blast
          from assms(5) W have "d \<notin> fst ` set (partition_files E ?pcs (rows W))"
            unfolding partition_files_dirs by auto
          then have "partition_rows (Dataset sch (?parts @ partition_files E ?pcs (rows W))) d
                       = partition_rows (Dataset sch ?parts) d"
            by (rule partition_rows_append)
          with kept e no_removal evs' show ?thesis by auto
        qed
      qed
    qed
  qed
qed

text \<open>
  The partition overwrite of scenario C: the incoming row lies in \<^verbatim>\<open>region=US\<close>, which
  is replaced, and \<^verbatim>\<open>region=EU\<close> keeps its row.
\<close>

theorem unaffected_partition_unchanged_witness:
  "target (storage region_existing) =
     Dataset region_schema
       [([''region=US''], [[(''id'', Some ''1''), (''region'', Some ''US'')]]),
        ([''region=EU''], [[(''id'', Some ''2''), (''region'', Some ''EU'')]])]
   \<and> reconcile plain_engine region_schema region_incoming = (region_incoming, True)
   \<and> transform_data_removing_empty_structs plain_engine region_incoming = Inr region_incoming
   \<and> rows region_incoming = [[(''id'', Some ''3''), (''region'', Some ''US'')]]
   \<and> partition_path plain_engine [''region'']
        (partition_key plain_engine [''region''] [(''id'', Some ''3''), (''region'', Some ''US'')])
       = [''region=US'']
   \<and> writer_path plain_engine [''region'']
        (partition_key plain_engine [''region''] [(''id'', Some ''3''), (''region'', Some ''US'')])
       = [''region=US'']
   \<and> partition_rows
         (target (snd (write_parquet plain_engine region_incoming None (Some [''region''])
                         (Some Partition) (storage region_existing)))) [''region=EU'']
       = [[(''id'', Some ''2''), (''region'', Some ''EU'')]]
   \<and> partition_rows
         (target (snd (write_parquet plain_engine region_incoming None (Some [''region''])
                         (Some Partition) (storage region_existing)))) [''region=US'']
       = [[(''id'', Some ''3''), (''region'', Some ''US'')]]"
proof -
  let ?parts = "[([''region=US''], [[(''id'', Some ''1''), (''region'', Some ''US'')]]),
                 ([''region=EU''], [[(''id'', Some ''2''), (''region'', Some ''EU'')]])]
                :: (string list \<times> string option row list) list"
  have a: "target (storage region_existing) = Dataset region_schema ?parts"
    by (simp add: storage_def region_existing_def)
  have b: "?parts \<noteq> []" by simp
  have c: "reconcile plain_engine region_schema region_incoming = (region_incoming, True)"
    by (simp add: reconcile_def region_incoming_def)
  have t: "transform_data_removing_empty_structs plain_engine region_incoming = Inr region_incoming"
    by (simp add: transform_data_removing_empty_structs_def analyze_schema_def region_incoming_def
        region_schema_def)
  have r: "rows region_incoming = [[(''id'', Some ''3''), (''region'', Some ''US'')]]"
    by (simp add: region_incoming_def)
  have n: "names (Some [''region'']) = [''region'']" by (simp add: names_def)
  have p: "partition_path plain_engine [''region'']
        (partition_key plain_engine [''region''] [(''id'', Some ''3''), (''region'', Some ''US'')])
       = [''region=US'']"
    by (simp add: partition_path_def partition_key_def cell_def plain_engine_def)
  have q: "writer_path plain_engine [''region'']
        (partition_key plain_engine [''region''] [(''id'', Some ''3''), (''region'', Some ''US'')])
       = [''region=US'']"
    by (simp add: writer_path_def partition_key_def cell_def plain_engine_def)
  have before: "partition_rows (target (storage region_existing)) [''region=EU'']
                  = [[(''id'', Some ''2''), (''region'', Some ''EU'')]]"
    by (simp add: a partition_rows_def)
  have h4: "\<forall>r \<in> set (rows (fst (reconcile plain_engine region_schema region_incoming))).
           \<not> prefix (partition_path plain_engine (names (Some [''region'']))
                       (partition_key plain_engine (names (Some [''region''])) r)) [''region=EU'']"
    by (simp add: c r n p)
  have h5: "\<forall>W. transform_data_removing_empty_structs plain_engine
                 (fst (reconcile plain_engine region_schema region_incoming)) = Inr W \<longrightarrow>
           (\<forall>r \<in> set (rows W).
              writer_path plain_engine (names (Some [''region'']))
                (partition_key plain_engine (names (Some [''region''])) r) \<noteq> [''region=EU''])"
    by (simp add: c t r n q)
  have h3: "snd (reconcile plain_engine region_schema region_incoming)" by (simp add: c)
  from unaffected_partition_unchanged[OF a b h3 h4 h5, of None] before
  have eu: "partition_rows
         (target (snd (write_parquet plain_engine region_incoming None (Some [''region''])
                         (Some Partition) (storage region_existing)))) [''region=EU'']
       = [[(''id'', Some ''2''), (''region'', Some ''EU'')]]"
    by simp
  have us: "partition_rows
         (target (snd (write_parquet plain_engine region_incoming None (Some [''region''])
                         (Some Partition) (storage region_existing)))) [''region=US'']
       = [[(''id'', Some ''3''), (''region'', Some ''US'')]]"
    by (simp add: run_defs region_existing_def region_incoming_def region_schema_def
        plain_engine_def partition_rows_def)
  from a c t r p q eu us show ?thesis by blast
qed

text \<open>
  The claim as the specification words it fails where the schemas still differ after the
  reconciliation: the incoming table has a column more, the whole dataset directory is
  removed and rewritten, and the rows of the partition \<^verbatim>\<open>region=EU\<close>, which the
  incoming table does not touch, come back with the new column.
\<close>

theorem unaffected_partition_counterexample:
  "write_parquet plain_engine region_incoming_wide None (Some [''region'']) (Some Partition)
     (storage region_existing) =
   (Inr (),
    \<lparr> target =
        Dataset (region_schema @ [(''note'', Primitive ''String'')])
          [([''region=US''], [[(''id'', Some ''3''), (''region'', Some ''US''), (''note'', Some ''n'')]]),
           ([''region=EU''], [[(''id'', Some ''2''), (''region'', Some ''EU''), (''note'', None)]])],
      s3 = False, parent_exists = True, on_mkdir = AlreadyThere,
      events =
        [Exists [], ListDir, CollectSchema, ExistsCurrentDir, ListDir, CollectSchema,
         Exists [''region=US''], RemoveDir [''region=US''], ListDir, CollectData, RemoveDir [],
         WriteParquet
           \<lparr> schema = region_schema @ [(''note'', Primitive ''String'')],
             rows = [[(''id'', Some ''3''), (''region'', Some ''US''), (''note'', Some ''n'')],
                     [(''id'', Some ''2''), (''region'', Some ''EU''), (''note'', None)]],
             failing = [], scans = False \<rparr>
           [''region'']] \<rparr>)
   \<and> partition_rows (target (storage region_existing)) [''region=EU'']
       = [[(''id'', Some ''2''), (''region'', Some ''EU'')]]
   \<and> rows region_incoming_wide
       = [[(''id'', Some ''3''), (''region'', Some ''US''), (''note'', Some ''n'')]]"
  by (simp add: run_defs region_existing_def region_incoming_wide_def region_schema_def
      with_columns_cast_def column_cast_fails_def plain_engine_def partition_rows_def)

section \<open>The fallback after a failed cast\<close>

lemma concat_rows:
  assumes "concat_diagonal_relaxed E a b = Inr U"
  shows "rows U = map (pad_row E (schema a) (schema U)) (rows a)
               @ map (pad_row E (schema b) (schema U)) (rows b)"
  using assms by (auto simp: concat_diagonal_relaxed_def Let_def split: if_splits)

lemma map_filter_all_Some:
  "\<forall>(c, t) \<in> set u. t \<noteq> None \<Longrightarrow>
   List.map_filter (\<lambda>(c, t). map_option (Pair c) t) u = map (\<lambda>(c, t). (c, the t)) u"
  by (induction u) (auto simp: List.map_filter_simps)

lemma union_schema_names:
  "map fst (union_schema E sa sb) = map fst sa @ filter (\<lambda>c. c \<notin> set (map fst sa)) (map fst sb)"
proof -
  have l: "map fst (map (\<lambda>(c, t). case map_of sb c of
                      None \<Rightarrow> (c, Some t)
                    | Some u \<Rightarrow> (c, if t = u then Some t else supertype E t u)) sa) = map fst sa"
    by (induction sa) (auto split: option.splits)
  have r: "map fst (map (\<lambda>(c, u). (c, Some u)) (filter (\<lambda>(c, u). map_of sa c = None) sb))
             = filter (\<lambda>c. c \<notin> set (map fst sa)) (map fst sb)"
    by (induction sb) (force simp: map_of_eq_None_iff)+
  show ?thesis unfolding union_schema_def map_append l r ..
qed

lemma concat_columns:
  assumes "concat_diagonal_relaxed E a b = Inr U"
  shows "columns U = columns a @ filter (\<lambda>c. c \<notin> set (columns a)) (columns b)"
proof -
  let ?u = "union_schema E (schema a) (schema b)"
  from assms have ok: "\<forall>(c, t) \<in> set ?u. t \<noteq> None"
    and U: "schema U = List.map_filter (\<lambda>(c, t). map_option (Pair c) t) ?u"
    by (auto simp: concat_diagonal_relaxed_def Let_def split: if_splits)
  have "schema U = map (\<lambda>(c, t). (c, the t)) ?u"
    unfolding U by (rule map_filter_all_Some[OF ok])
  then have "map fst (schema U) = map fst ?u" by (simp add: comp_def case_prod_beta)
  then show ?thesis by (simp add: columns_def union_schema_names)
qed

lemma cell_pad_row_null:
  assumes "map_of own c = None"
  shows "cell E (pad_row E own tgt r) c = null_val E"
proof -
  let ?h = "\<lambda>c T. case map_of own c of
                     None \<Rightarrow> null_val E
                   | Some t \<Rightarrow> cast_or_keep E t T (cell E r c)"
  have "pad_row E own tgt r = map (\<lambda>(c, T). (c, ?h c T)) tgt"
    by (auto simp: pad_row_def split: option.splits)
  then have "map_of (pad_row E own tgt r) c = map_option (?h c) (map_of tgt c)"
    by (simp only: map_of_map_values)
  with assms show ?thesis by (cases "map_of tgt c") (simp_all add: cell_def)
qed

lemma concat_is_union_by_name:
  assumes "concat_diagonal_relaxed E a b = Inr U"
  shows "union_by_name E a b U"
proof -
  have none: "\<And>sch c. c \<notin> set (map fst sch) \<Longrightarrow> map_of sch c = None"
    by (simp add: map_of_eq_None_iff)
  show ?thesis
    unfolding union_by_name_def
    using concat_columns[OF assms] concat_rows[OF assms]
    by (auto simp: columns_def intro!: cell_pad_row_null none)
qed

lemma union_by_name_fields:
  assumes "schema a' = schema a" "rows a' = rows a" "schema b' = schema b" "rows b' = rows b"
    "schema U' = schema U" "rows U' = rows U"
  shows "union_by_name E a' b' U' = union_by_name E a b U"
  unfolding union_by_name_def columns_def assms ..

lemma reconcile_failed:
  assumes "schema df \<noteq> sch" and "with_columns_cast E df sch = Inl e"
  shows "reconcile E sch df = (df, False)"
  using assms by (auto simp: reconcile_def Let_def)

lemma sanitize_and_write_success:
  assumes "sanitize_and_write E X partition_cols w = (Inr (), w')"
  shows "materialize E X partition_cols (target w) = Inr (target w')"
proof (cases "transform_data_removing_empty_structs E X")
  case (Inl e)
  with assms show ?thesis by (simp add: sanitize_and_write_def io_defs split: if_splits)
next
  case (Inr T)
  with assms show ?thesis
    by (auto simp: sanitize_and_write_def io_defs materialize_def split: if_splits sum.splits)
qed

lemma upsert_fallback:
  assumes "given upsert_key" "target w = Dataset sch parts"
    and "table_for_mode E df df False upsert_key partition_cols None w = (Inr d, w')"
  shows "target w' = Absent
       \<and> union_by_name E df
           (table sch (survivors E (names upsert_key) (rows df) (concat (map snd parts)))) d"
proof -
  let ?old = "\<lparr> schema = sch, rows = concat (map snd parts), failing = [], scans = False \<rparr>"
  from assms obtain S U where
    S: "join_anti E ?old df (names upsert_key) = Inr S"
    and U: "concat_diagonal_relaxed E df S = Inr U"
    and d: "d = U\<lparr> scans := False \<rparr>"
    and t: "target w' = Absent"
    by (auto simp: table_for_mode_def io_defs remove_target_def
        split: sum.splits if_splits target.splits)
  from S have s: "schema S = sch"
    "rows S = survivors E (names upsert_key) (rows df) (concat (map snd parts))"
    by (auto simp: join_anti_def survivors_def split: option.splits)
  have "union_by_name E df S U" by (rule concat_is_union_by_name[OF U])
  then have "union_by_name E df
           (table sch (survivors E (names upsert_key) (rows df) (concat (map snd parts)))) d"
    by (subst union_by_name_fields[of _ df _ S _ U]) (simp_all add: s d table_def)
  with t show ?thesis by simp
qed

lemma partition_fallback:
  assumes "target w = Dataset sch parts"
    and "table_for_mode E df df False upsert_key partition_cols (Some Partition) w = (Inr d, w')"
  shows "target w' = Absent
       \<and> union_by_name E df
           (table sch (concat (map snd (filter (\<lambda>(d, rs). \<not> (\<exists>r \<in> set (rows df).
                      prefix (partition_path E (names partition_cols)
                                (partition_key E (names partition_cols) r)) d)) parts)))) d"
proof -
  let ?pcs = "names partition_cols"
  from assms(2) have g: "given partition_cols"
    by (auto simp: table_for_mode_def raise_def split: if_splits)
  from assms(2) g obtain A where A: "partitions_affected_df E df ?pcs = Inr A"
    by (cases "partitions_affected_df E df ?pcs") (auto simp: table_for_mode_def io_defs)
  let ?remaining = "filter (\<lambda>(d, rs). \<not> (\<exists>r \<in> set (rows df).
                      prefix (partition_path E ?pcs (partition_key E ?pcs r)) d)) parts"
  have paths: "\<forall>p \<in> set (tuples E A). partition_path E ?pcs p \<noteq> []"
    using partition_path_nonempty[OF A] given_names[OF g] by simp
  have "removed_after E ?pcs (tuples E A) (target w) =
            Dataset sch (filter (\<lambda>(d, rs). \<not> (\<exists>p \<in> set (tuples E A).
                                   prefix (partition_path E ?pcs p) d)) parts)"
    unfolding assms(1) by (rule removed_after_Dataset[OF paths])
  also have "(\<lambda>(d, rs). \<not> (\<exists>p \<in> set (tuples E A). prefix (partition_path E ?pcs p) d)) =
               (\<lambda>(d, rs). \<not> (\<exists>r \<in> set (rows df).
                                prefix (partition_path E ?pcs (partition_key E ?pcs r)) d))"
    unfolding tuples_affected[OF A] by simp
  finally have t: "removed_after E ?pcs (tuples E A) (target w) = Dataset sch ?remaining" .
  let ?old = "\<lparr> schema = sch, rows = concat (map snd ?remaining), failing = [], scans = False \<rparr>"
  from assms(2) g A t obtain U where
    U: "concat_diagonal_relaxed E df ?old = Inr U"
    and d: "d = U\<lparr> scans := False \<rparr>"
    and a: "target w' = Absent"
    by (auto simp: table_for_mode_def io_defs remove_partitions_run remove_target_def
        split: sum.splits if_splits)
  have "union_by_name E df ?old U" by (rule concat_is_union_by_name[OF U])
  then have "union_by_name E df (table sch (concat (map snd ?remaining))) d"
    by (subst union_by_name_fields[of _ df _ ?old _ U]) (simp_all add: d table_def)
  with a show ?thesis by simp
qed

text \<open>
  Claim C4, as the code has it. Over readable existing data, when the casts to the
  existing schema are rejected where the schema of the plan with the casts is resolved,
  inside the \<^verbatim>\<open>try\<close> of lines 188-201, the reconciliation is given up as a whole: the
  incoming table stays as it came in and \<^verbatim>\<open>schemas_match\<close> is false, and the call goes
  on to its mode with them. Whenever the call then succeeds, the dataset it leaves is
  this. In a full overwrite: what the writer makes of the sanitized incoming table alone,
  in place of the old dataset. In a partition overwrite and in an upsert: what the
  writer makes of the sanitized union by name, padded with nulls, of the incoming table
  and the existing rows that remain, in place of the old dataset; the rows that remain
  are those of the partitions that were not removed, or those whose key matches no
  incoming row. With no mode: what the writer makes of the sanitized incoming table alone
  over the existing dataset.
\<close>

theorem failed_cast_falls_back:
  assumes "target w = Dataset sch parts" and "parts \<noteq> []"
    and "schema df \<noteq> sch" and "with_columns_cast E df sch = Inl e"
  shows
    "reconcile E sch df = (df, False)
     \<and> (dir_error w = None \<longrightarrow>
          table_to_write E df upsert_key partition_cols overwrite_level w =
            table_for_mode E df df False upsert_key partition_cols overwrite_level
              (w\<lparr> events := events w @ [Exists [], ListDir, CollectSchema] @ dir_events w
                                      @ [ListDir, CollectSchema] @ incoming_reads E sch df \<rparr>))
     \<and> (\<forall>w'. write_parquet E df upsert_key partition_cols overwrite_level w = (Inr (), w') \<longrightarrow>
          (if overwrite_level = Some Full
           then materialize E df partition_cols Absent = Inr (target w')
           else if overwrite_level = Some Partition \<or> given upsert_key
           then \<exists>U. union_by_name E df
                       (table sch (remaining_rows E df upsert_key partition_cols
                                     overwrite_level parts)) U
                     \<and> materialize E U partition_cols Absent = Inr (target w')
           else materialize E df partition_cols (target w) = Inr (target w')))"
proof (intro conjI impI allI)
  let ?w1 = "w\<lparr> events := events w @ [Exists [], ListDir, CollectSchema] @ dir_events w
                                      @ [ListDir, CollectSchema] @ incoming_reads E sch df \<rparr>"
  let ?mode = "table_for_mode E df df False upsert_key partition_cols overwrite_level"
  show rec: "reconcile E sch df = (df, False)" by (rule reconcile_failed[OF assms(3,4)])
  have start: "dir_error w = None \<Longrightarrow>
      table_to_write E df upsert_key partition_cols overwrite_level w = ?mode ?w1"
  proof -
    assume none: "dir_error w = None"
    show ?thesis
      unfolding table_to_write_existing[OF assms(1,2) none]
      using assms(1,2) rec by (subst reconcile_start[of _ sch parts]) simp_all
  qed
  {
    assume "dir_error w = None"
    then show "table_to_write E df upsert_key partition_cols overwrite_level w = ?mode ?w1"
      by (rule start)
  }
  fix w'
  assume ok: "write_parquet E df upsert_key partition_cols overwrite_level w = (Inr (), w')"
  have dir: "dir_error w = None"
  proof (cases "dir_error w")
    case (Some err)
    with ok table_to_write_no_directory[OF assms(1,2) Some, of E df upsert_key partition_cols
        overwrite_level]
    show ?thesis by (simp add: write_parquet_def bind_def)
  qed simp
  from ok obtain d w3 where mode: "?mode ?w1 = (Inr d, w3)"
    and fin: "sanitize_and_write E d partition_cols w3 = (Inr (), w')"
    unfolding write_parquet_def start[OF dir] bind_def
    by (auto split: prod.splits sum.splits)
  have mat: "materialize E d partition_cols (target w3) = Inr (target w')"
    by (rule sanitize_and_write_success[OF fin])
  have t1: "target ?w1 = Dataset sch parts" using assms(1) by simp
  show "if overwrite_level = Some Full
           then materialize E df partition_cols Absent = Inr (target w')
           else if overwrite_level = Some Partition \<or> given upsert_key
           then \<exists>U. union_by_name E df
                       (table sch (remaining_rows E df upsert_key partition_cols
                                     overwrite_level parts)) U
                     \<and> materialize E U partition_cols Absent = Inr (target w')
           else materialize E df partition_cols (target w) = Inr (target w')"
  proof (cases "overwrite_level = Some Full")
    case True
    with mode have "d = df" "target w3 = Absent"
      by (auto simp: table_for_mode_def io_defs remove_target_def)
    with mat True show ?thesis by simp
  next
    case nf: False
    show ?thesis
    proof (cases "overwrite_level = Some Partition")
      case True
      from partition_fallback[OF t1 mode[unfolded True]] mat True nf
      show ?thesis by (auto simp: remaining_rows_def)
    next
      case np: False
      show ?thesis
      proof (cases "given upsert_key")
        case True
        from nf np have none: "overwrite_level = None"
          by (cases overwrite_level) (auto intro: overwrite_level.exhaust)
        from upsert_fallback[OF True t1 mode[unfolded none]] mat True nf np
        show ?thesis by (auto simp: remaining_rows_def)
      next
        case False
        with mode nf np have "d = df" "target w3 = target w"
          by (auto simp: table_for_mode_def io_defs)
        with mat False nf np show ?thesis by simp
      qed
    qed
  qed
qed

text \<open>
  An upsert on \<^verbatim>\<open>v\<close> of a table whose \<^verbatim>\<open>id\<close> is text and which has a further column,
  on an engine that accepts no cast: the two old rows remain, and the dataset is the
  union by name.
\<close>

theorem failed_cast_falls_back_witness:
  "target (storage kv_existing) =
     Dataset kv_schema [([], [[(''id'', Some ''1''), (''v'', Some ''a'')],
                              [(''id'', Some ''2''), (''v'', Some ''b'')]])]
   \<and> schema note_incoming \<noteq> kv_schema
   \<and> with_columns_cast strict_engine note_incoming kv_schema = Inl InvalidOperationError
   \<and> reconcile strict_engine kv_schema note_incoming = (note_incoming, False)
   \<and> write_parquet strict_engine note_incoming (Some [''v'']) None None (storage kv_existing) =
       (Inr (),
        \<lparr> target = Dataset [(''id'', Primitive ''String''), (''v'', Primitive ''String''),
                            (''note'', Primitive ''String'')]
                     [([], [[(''id'', Some ''7''), (''v'', Some ''z''), (''note'', Some ''n'')],
                            [(''id'', Some ''1''), (''v'', Some ''a''), (''note'', None)],
                            [(''id'', Some ''2''), (''v'', Some ''b''), (''note'', None)]])],
          s3 = False, parent_exists = True, on_mkdir = AlreadyThere,
          events = [Exists [], ListDir, CollectSchema, ExistsCurrentDir, ListDir, CollectSchema,
                    CollectData, RemoveDir [],
                    WriteParquet
                      \<lparr> schema = [(''id'', Primitive ''String''), (''v'', Primitive ''String''),
                                  (''note'', Primitive ''String'')],
                        rows = [[(''id'', Some ''7''), (''v'', Some ''z''), (''note'', Some ''n'')],
                                [(''id'', Some ''1''), (''v'', Some ''a''), (''note'', None)],
                                [(''id'', Some ''2''), (''v'', Some ''b''), (''note'', None)]],
                        failing = [], scans = False \<rparr> []] \<rparr>)
   \<and> remaining_rows strict_engine note_incoming (Some [''v'']) None None
         [([], [[(''id'', Some ''1''), (''v'', Some ''a'')],
                [(''id'', Some ''2''), (''v'', Some ''b'')]])]
       = [[(''id'', Some ''1''), (''v'', Some ''a'')], [(''id'', Some ''2''), (''v'', Some ''b'')]]
   \<and> (\<exists>U. union_by_name strict_engine note_incoming
              (table kv_schema [[(''id'', Some ''1''), (''v'', Some ''a'')],
                                [(''id'', Some ''2''), (''v'', Some ''b'')]]) U
          \<and> materialize strict_engine U None Absent =
              Inr (Dataset [(''id'', Primitive ''String''), (''v'', Primitive ''String''),
                            (''note'', Primitive ''String'')]
                     [([], [[(''id'', Some ''7''), (''v'', Some ''z''), (''note'', Some ''n'')],
                            [(''id'', Some ''1''), (''v'', Some ''a''), (''note'', None)],
                            [(''id'', Some ''2''), (''v'', Some ''b''), (''note'', None)]])]))"
proof -
  let ?old = "[[(''id'', Some ''1''), (''v'', Some ''a'')],
               [(''id'', Some ''2''), (''v'', Some ''b'')]] :: string option row list"
  let ?parts = "[([], ?old)] :: (string list \<times> string option row list) list"
  let ?new = "Dataset [(''id'', Primitive ''String''), (''v'', Primitive ''String''),
                            (''note'', Primitive ''String'')]
                     [([], [[(''id'', Some ''7''), (''v'', Some ''z''), (''note'', Some ''n'')],
                            [(''id'', Some ''1''), (''v'', Some ''a''), (''note'', None)],
                            [(''id'', Some ''2''), (''v'', Some ''b''), (''note'', None)]])]
              :: string option target"
  let ?W = "\<lparr> target = ?new,
          s3 = False, parent_exists = True, on_mkdir = AlreadyThere,
          events = [Exists [], ListDir, CollectSchema, ExistsCurrentDir, ListDir, CollectSchema,
                    CollectData, RemoveDir [],
                    WriteParquet
                      \<lparr> schema = [(''id'', Primitive ''String''), (''v'', Primitive ''String''),
                                  (''note'', Primitive ''String'')],
                        rows = [[(''id'', Some ''7''), (''v'', Some ''z''), (''note'', Some ''n'')],
                                [(''id'', Some ''1''), (''v'', Some ''a''), (''note'', None)],
                                [(''id'', Some ''2''), (''v'', Some ''b''), (''note'', None)]],
                        failing = [], scans = False \<rparr> []] \<rparr> :: string option world"
  have a: "target (storage kv_existing) = Dataset kv_schema ?parts"
    by (simp add: storage_def kv_existing_def)
  have b: "?parts \<noteq> []" by simp
  have c: "schema note_incoming \<noteq> kv_schema"
    by (simp add: note_incoming_def kv_schema_def)
  have d: "with_columns_cast strict_engine note_incoming kv_schema = Inl InvalidOperationError"
    by (simp add: with_columns_cast_def note_incoming_def kv_schema_def strict_engine_def
        plain_engine_def)
  have g: "given (Some [''v''])" by (simp add: given_def)
  have s: "remaining_rows strict_engine note_incoming (Some [''v'']) None None ?parts = ?old"
    by (simp add: remaining_rows_def survivors_def names_def note_incoming_def key_match_def
        cell_def strict_engine_def plain_engine_def)
  have run: "write_parquet strict_engine note_incoming (Some [''v'']) None None (storage kv_existing)
               = (Inr (), ?W)"
    using d
    by (simp add: run_defs kv_existing_def kv_schema_def note_incoming_def strict_engine_def
        plain_engine_def)
  have tw: "target ?W = ?new" by simp
  note main = failed_cast_falls_back[OF a b c d, of "Some [''v'']" None None]
  from main have r: "reconcile strict_engine kv_schema note_incoming = (note_incoming, False)"
    by blast
  from main run g
  have "\<exists>U. union_by_name strict_engine note_incoming
              (table kv_schema (remaining_rows strict_engine note_incoming (Some [''v'']) None None
                                  ?parts)) U
          \<and> materialize strict_engine U None Absent = Inr (target ?W)"
    by (simp del: One_nat_def)
  then have u: "\<exists>U. union_by_name strict_engine note_incoming (table kv_schema ?old) U
          \<and> materialize strict_engine U None Absent = Inr ?new"
    unfolding s tw .
  from a c d r run s u show ?thesis by blast
qed

text \<open>
  The claim as the specification words it fails in four ways. In a full overwrite after
  a rejected cast the dataset is the incoming table alone, not the union. In a partition
  overwrite whose incoming rows cover every partition, the scan of what remains raises
  \<^verbatim>\<open>ComputeError\<close> after the partitions have been removed: the write aborts. In an
  upsert on the column whose cast was rejected, the join raises \<^verbatim>\<open>SchemaError\<close>: the
  write aborts. And a cast that the engine accepts for the plan but that fails on the
  value \<^verbatim>\<open>abc\<close> does not raise inside the \<^verbatim>\<open>try\<close>: the reconciliation keeps the plan
  with the casts and \<^verbatim>\<open>schemas_match\<close> true, and the full overwrite aborts with the
  error of the cast on line 280, after it has removed the dataset.
\<close>

theorem failed_cast_counterexample:
  "with_columns_cast strict_engine note_incoming kv_schema = Inl InvalidOperationError
   \<and> write_parquet strict_engine note_incoming None None (Some Full) (storage kv_existing) =
       (Inr (),
        \<lparr> target = Dataset [(''id'', Primitive ''String''), (''v'', Primitive ''String''),
                            (''note'', Primitive ''String'')]
                     [([], [[(''id'', Some ''7''), (''v'', Some ''z''), (''note'', Some ''n'')]])],
          s3 = False, parent_exists = True, on_mkdir = AlreadyThere,
          events = [Exists [], ListDir, CollectSchema, ExistsCurrentDir, ListDir, CollectSchema,
                    RemoveDir [], WriteParquet note_incoming []] \<rparr>)
   \<and> with_columns_cast strict_engine region_text_incoming region_schema = Inl InvalidOperationError
   \<and> write_parquet strict_engine region_text_incoming None (Some [''region'']) (Some Partition)
         (storage region_existing) =
       (Inl ComputeError,
        \<lparr> target = Dataset region_schema [],
          s3 = False, parent_exists = True, on_mkdir = AlreadyThere,
          events = [Exists [], ListDir, CollectSchema, ExistsCurrentDir, ListDir, CollectSchema,
                    Exists [''region=US''], RemoveDir [''region=US''],
                    Exists [''region=EU''], RemoveDir [''region=EU''],
                    ListDir, CollectData] \<rparr>)
   \<and> with_columns_cast strict_engine text_incoming kv_schema = Inl InvalidOperationError
   \<and> write_parquet strict_engine text_incoming (Some [''id'']) None None (storage kv_existing) =
       (Inl SchemaError,
        \<lparr> target = kv_existing,
          s3 = False, parent_exists = True, on_mkdir = AlreadyThere,
          events = [Exists [], ListDir, CollectSchema, ExistsCurrentDir, ListDir, CollectSchema,
                    CollectData] \<rparr>)
   \<and> reconcile parsing_engine kv_schema abc_incoming =
       (\<lparr> schema = kv_schema, rows = [[(''id'', Some ''abc''), (''v'', Some ''z'')]],
          failing = [''id''], scans = False \<rparr>, True)
   \<and> write_parquet parsing_engine abc_incoming None None (Some Full) (storage kv_existing) =
       (Inl InvalidOperationError,
        \<lparr> target = Absent,
          s3 = False, parent_exists = True, on_mkdir = AlreadyThere,
          events = [Exists [], ListDir, CollectSchema, ExistsCurrentDir, ListDir, CollectSchema,
                    RemoveDir []] \<rparr>)"
proof -
  have 1: "with_columns_cast strict_engine note_incoming kv_schema = Inl InvalidOperationError"
    by (simp add: with_columns_cast_def note_incoming_def kv_schema_def strict_engine_def
        plain_engine_def)
  have 2: "write_parquet strict_engine note_incoming None None (Some Full) (storage kv_existing) =
       (Inr (),
        \<lparr> target = Dataset [(''id'', Primitive ''String''), (''v'', Primitive ''String''),
                            (''note'', Primitive ''String'')]
                     [([], [[(''id'', Some ''7''), (''v'', Some ''z''), (''note'', Some ''n'')]])],
          s3 = False, parent_exists = True, on_mkdir = AlreadyThere,
          events = [Exists [], ListDir, CollectSchema, ExistsCurrentDir, ListDir, CollectSchema,
                    RemoveDir [], WriteParquet note_incoming []] \<rparr>)"
    using 1
    by (simp add: run_defs kv_existing_def kv_schema_def note_incoming_def strict_engine_def
        plain_engine_def)
  have 3: "with_columns_cast strict_engine region_text_incoming region_schema = Inl InvalidOperationError"
    by (simp add: with_columns_cast_def region_text_incoming_def region_schema_def
        strict_engine_def plain_engine_def)
  have 4: "write_parquet strict_engine region_text_incoming None (Some [''region'']) (Some Partition)
         (storage region_existing) =
       (Inl ComputeError,
        \<lparr> target = Dataset region_schema [],
          s3 = False, parent_exists = True, on_mkdir = AlreadyThere,
          events = [Exists [], ListDir, CollectSchema, ExistsCurrentDir, ListDir, CollectSchema,
                    Exists [''region=US''], RemoveDir [''region=US''],
                    Exists [''region=EU''], RemoveDir [''region=EU''],
                    ListDir, CollectData] \<rparr>)"
    using 3
    by (simp add: run_defs region_existing_def region_schema_def region_text_incoming_def
        strict_engine_def plain_engine_def)
  have 5: "with_columns_cast strict_engine text_incoming kv_schema = Inl InvalidOperationError"
    by (simp add: with_columns_cast_def text_incoming_def kv_schema_def strict_engine_def
        plain_engine_def)
  have 6: "write_parquet strict_engine text_incoming (Some [''id'']) None None (storage kv_existing) =
       (Inl SchemaError,
        \<lparr> target = kv_existing,
          s3 = False, parent_exists = True, on_mkdir = AlreadyThere,
          events = [Exists [], ListDir, CollectSchema, ExistsCurrentDir, ListDir, CollectSchema,
                    CollectData] \<rparr>)"
    using 5
    by (simp add: run_defs kv_existing_def kv_schema_def text_incoming_def strict_engine_def
        plain_engine_def)
  have c: "with_columns_cast parsing_engine abc_incoming kv_schema =
       Inr \<lparr> schema = kv_schema, rows = [[(''id'', Some ''abc''), (''v'', Some ''z'')]],
          failing = [''id''], scans = False \<rparr>"
    by (simp add: with_columns_cast_def abc_incoming_def kv_schema_def parsing_engine_def
        plain_engine_def column_cast_fails_def cast_cell_def cast_or_keep_def cell_def)
  have 7: "reconcile parsing_engine kv_schema abc_incoming =
       (\<lparr> schema = kv_schema, rows = [[(''id'', Some ''abc''), (''v'', Some ''z'')]],
          failing = [''id''], scans = False \<rparr>, True)"
    using c by (simp add: reconcile_def Let_def abc_incoming_def kv_schema_def)
  have t: "transform_data_removing_empty_structs parsing_engine
             \<lparr> schema = kv_schema, rows = [[(''id'', Some ''abc''), (''v'', Some ''z'')]],
               failing = [''id''], scans = False \<rparr>
           = Inr \<lparr> schema = kv_schema, rows = [[(''id'', Some ''abc''), (''v'', Some ''z'')]],
               failing = [''id''], scans = False \<rparr>"
    by (simp add: transform_data_removing_empty_structs_def analyze_schema_def kv_schema_def)
  have s: "schema abc_incoming \<noteq> kv_schema" "\<not> scans abc_incoming"
    by (simp_all add: abc_incoming_def kv_schema_def)
  have 8: "write_parquet parsing_engine abc_incoming None None (Some Full) (storage kv_existing) =
       (Inl InvalidOperationError,
        \<lparr> target = Absent,
          s3 = False, parent_exists = True, on_mkdir = AlreadyThere,
          events = [Exists [], ListDir, CollectSchema, ExistsCurrentDir, ListDir, CollectSchema,
                    RemoveDir []] \<rparr>)"
    using 7 t s c
    by (simp add: write_parquet_def table_to_write_def probe_existing_def
        reconcile_with_existing_def table_for_mode_def resolve_incoming_def
        sanitize_and_write_def io_defs dir_exists_def given_def storage_def kv_existing_def
        remove_target_def)
  from 1 2 3 4 5 6 7 8 show ?thesis by simp
qed

section \<open>Upsert\<close>

lemma map_of_append_left: "map_of xs c = Some y \<Longrightarrow> map_of (xs @ ys) c = Some y"
  by (simp add: map_add_Some_iff)

lemma concat_schema_key_column:
  assumes "concat_diagonal_relaxed E a b = Inr U"
    and "map_of (schema a) c = Some t" and "map_of (schema b) c = Some t"
  shows "map_of (schema U) c = Some t"
proof -
  let ?u = "union_schema E (schema a) (schema b)"
  let ?f = "\<lambda>c t. case map_of (schema b) c of
                     None \<Rightarrow> Some t
                   | Some u \<Rightarrow> if t = u then Some t else supertype E t u"
  from assms(1) have ok: "\<forall>(c, t) \<in> set ?u. t \<noteq> None"
    and U: "schema U = List.map_filter (\<lambda>(c, t). map_option (Pair c) t) ?u"
    by (auto simp: concat_diagonal_relaxed_def Let_def split: if_splits)
  have left: "map (\<lambda>(c, t). case map_of (schema b) c of
                      None \<Rightarrow> (c, Some t)
                    | Some u \<Rightarrow> (c, if t = u then Some t else supertype E t u)) (schema a)
              = map (\<lambda>(c, t). (c, ?f c t)) (schema a)"
    by (auto split: option.splits)
  have "map_of (map (\<lambda>(c, t). (c, ?f c t)) (schema a)) c = Some (Some t)"
    unfolding map_of_map_values using assms(2,3) by simp
  then have "map_of ?u c = Some (Some t)"
    unfolding union_schema_def left by (rule map_of_append_left)
  moreover have "schema U = map (\<lambda>(c, t). (c, the t)) ?u"
    unfolding U by (rule map_filter_all_Some[OF ok])
  moreover have "map (\<lambda>(c, t). (c, the t)) ?u = map (\<lambda>(c, t). (c, (\<lambda>c. the) c t)) ?u"
    by simp
  ultimately show ?thesis
    by (simp only: map_of_map_values) simp
qed

lemma cell_pad_row:
  assumes "map_of own c = Some t" and "map_of tgt c = Some t"
  shows "cell E (pad_row E own tgt r) c = cell E r c"
proof -
  let ?h = "\<lambda>c T. case map_of own c of
                     None \<Rightarrow> null_val E
                   | Some t \<Rightarrow> cast_or_keep E t T (cell E r c)"
  have "pad_row E own tgt r = map (\<lambda>(c, T). (c, ?h c T)) tgt"
    by (auto simp: pad_row_def split: option.splits)
  then have "map_of (pad_row E own tgt r) c = map_option (?h c) (map_of tgt c)"
    by (simp only: map_of_map_values)
  with assms show ?thesis by (simp add: cell_def cast_cell_def cast_or_keep_def)
qed

lemma join_check_types:
  assumes "join_check left right on = None" and "c \<in> set on"
  shows "\<exists>t. map_of (schema left) c = Some t \<and> map_of (schema right) c = Some t"
proof -
  from assms have some: "map_of (schema left) c \<noteq> None"
    and eq: "map (map_of (schema left)) on = map (map_of (schema right)) on"
    by (auto simp: join_check_def split: if_splits)
  from eq assms(2) have "map_of (schema left) c = map_of (schema right) c" by simp
  with some show ?thesis by auto
qed

lemma key_of_pad_row:
  assumes "\<forall>c \<in> set key. \<exists>t. map_of own c = Some t \<and> map_of tgt c = Some t"
  shows "key_of E key (pad_row E own tgt r) = key_of E key r"
proof -
  have "\<forall>c \<in> set key. cell E (pad_row E own tgt r) c = cell E r c"
  proof
    fix c assume \<open>c \<in> set key\<close>
    with assms obtain t where "map_of own c = Some t" "map_of tgt c = Some t" by blast
    then show "cell E (pad_row E own tgt r) c = cell E r c" by (rule cell_pad_row)
  qed
  then show ?thesis by (simp add: key_of_def)
qed

lemma key_match_equal_keys:
  assumes "key_of E key l = key_of E key r" and "\<forall>c \<in> set key. cell E l c \<noteq> null_val E"
  shows "key_match E key l r"
  using assms by (auto simp: key_match_def key_of_def list_all_iff)

text \<open>
  The union of the incoming plan with the rows that an anti-join on the key left is an
  upsert.
\<close>

lemma upserted_concat:
  assumes "join_check X incoming key = None"
    and "concat_diagonal_relaxed E incoming S = Inr U"
    and "schema S = schema X" and "rows S = survivors E key (rows incoming) old"
  shows "upserted E key incoming (schema X) (survivors E key (rows incoming) old) U"
proof -
  let ?S = "survivors E key (rows incoming) old"
  have types: "\<forall>c \<in> set key. \<exists>t. map_of (schema X) c = Some t \<and> map_of (schema incoming) c = Some t"
    using join_check_types[OF assms(1)] by blast
  have u: "union_by_name E incoming S U" by (rule concat_is_union_by_name[OF assms(2)])
  have 1: "union_by_name E incoming (table (schema X) ?S) U"
    by (subst union_by_name_fields[of _ incoming _ S _ U]) (simp_all add: assms(3,4) table_def u)
  have inU: "\<forall>c \<in> set key. \<exists>t. map_of (schema incoming) c = Some t \<and> map_of (schema U) c = Some t"
  proof
    fix c assume "c \<in> set key"
    with types obtain t where t: "map_of (schema X) c = Some t" "map_of (schema incoming) c = Some t"
      by blast
    from concat_schema_key_column[OF assms(2) t(2)] t(1) assms(3)
    have "map_of (schema U) c = Some t" by simp
    with t(2) show "\<exists>t. map_of (schema incoming) c = Some t \<and> map_of (schema U) c = Some t" by blast
  qed
  have oldU: "\<forall>c \<in> set key. \<exists>t. map_of (schema S) c = Some t \<and> map_of (schema U) c = Some t"
  proof
    fix c assume "c \<in> set key"
    with types obtain t where t: "map_of (schema X) c = Some t" "map_of (schema incoming) c = Some t"
      by blast
    from concat_schema_key_column[OF assms(2) t(2)] t(1) assms(3)
    have "map_of (schema U) c = Some t" by simp
    with t(1) assms(3) show "\<exists>t. map_of (schema S) c = Some t \<and> map_of (schema U) c = Some t"
      by simp
  qed
  have 2: "map (key_of E key) (rows U) = map (key_of E key) (rows incoming) @ map (key_of E key) ?S"
    unfolding concat_rows[OF assms(2)]
    by (simp add: key_of_pad_row[OF inU] key_of_pad_row[OF oldU] assms(4) comp_def)
  have 3: "\<forall>l \<in> set ?S. \<forall>r \<in> set (rows incoming).
           key_of E key l = key_of E key r \<longrightarrow> (\<exists>c \<in> set key. cell E l c = null_val E)"
  proof (intro ballI impI)
    fix l r assume l: "l \<in> set ?S" and r: "r \<in> set (rows incoming)"
      and k: "key_of E key l = key_of E key r"
    from l r have "\<not> key_match E key l r" by (auto simp: survivors_def)
    with key_match_equal_keys[OF k] show "\<exists>c \<in> set key. cell E l c = null_val E" by blast
  qed
  from 1 2 3 show ?thesis unfolding upserted_def by blast
qed

lemma upserted_scans:
  "upserted E key incoming sch S (U\<lparr> scans := b \<rparr>) = upserted E key incoming sch S U"
  unfolding upserted_def
  by (simp add: union_by_name_fields[of "incoming" incoming "table sch S" "table sch S"
        "U\<lparr> scans := b \<rparr>" U])

lemma upsert_whole:
  assumes "given upsert_key" "\<not> (given partition_cols \<and> schemas_match)"
    and "target w = Dataset sch parts"
    and "table_for_mode E df lazy_df schemas_match upsert_key partition_cols None w = (Inr d, w')"
  shows "target w' = Absent
       \<and> upserted E (names upsert_key) lazy_df sch
           (survivors E (names upsert_key) (rows lazy_df) (concat (map snd parts))) d"
proof -
  let ?old = "\<lparr> schema = sch, rows = concat (map snd parts), failing = [], scans = False \<rparr>"
  from assms obtain S U where
    S: "join_anti E ?old lazy_df (names upsert_key) = Inr S"
    and U: "concat_diagonal_relaxed E lazy_df S = Inr U"
    and d: "d = U\<lparr> scans := False \<rparr>"
    and t: "target w' = Absent"
    by (auto simp: table_for_mode_def io_defs remove_target_def
        split: sum.splits if_splits target.splits)
  from S have jc: "join_check ?old lazy_df (names upsert_key) = None"
    and s: "schema S = schema ?old"
    "rows S = survivors E (names upsert_key) (rows lazy_df) (concat (map snd parts))"
    by (auto simp: join_anti_def survivors_def split: option.splits)
  from upserted_concat[OF jc U s] have
    "upserted E (names upsert_key) lazy_df sch
           (survivors E (names upsert_key) (rows lazy_df) (concat (map snd parts))) U" by simp
  with t d show ?thesis by (simp add: upserted_scans)
qed

lemma names_selected:
  "fst ` set (List.map_filter (\<lambda>c. map_option (Pair c) (m c)) cols) \<subseteq> set cols"
  by (induction cols) (auto simp: List.map_filter_simps split: option.splits)

lemma affected_schema:
  assumes "partitions_affected_df E df pcs = Inr A"
  shows "fst ` set (schema A) \<subseteq> set pcs"
    and "rows A = remdups (map (\<lambda>r. map (\<lambda>c. (c, cell E r c)) pcs) (rows df))"
proof -
  from assms have
    sch: "schema A = List.map_filter (\<lambda>c. map_option (Pair c) (map_of (schema df) c)) pcs"
    and rows: "rows A = remdups (map (\<lambda>r. map (\<lambda>c. (c, cell E r c)) pcs) (rows df))"
    by (auto simp: partitions_affected_df_def select_def unique_def split: if_splits sum.splits)
  show "fst ` set (schema A) \<subseteq> set pcs" unfolding sch by (rule names_selected)
  show "rows A = remdups (map (\<lambda>r. map (\<lambda>c. (c, cell E r c)) pcs) (rows df))" by (rule rows)
qed

lemma key_match_selected:
  "key_match E pcs l (map (\<lambda>c. (c, cell E r c)) pcs) = key_match E pcs l r"
  by (simp add: key_match_def list_all_iff cell_select_row)

lemma selected_row_determined:
  assumes "key_match E pcs l (map (\<lambda>c. (c, x c)) pcs)"
  shows "map (\<lambda>c. (c, x c)) pcs = map (\<lambda>c. (c, cell E l c)) pcs"
proof -
  have "\<forall>c \<in> set pcs. cell E (map (\<lambda>c. (c, x c)) pcs) c = x c"
  proof
    fix c assume \<open>c \<in> set pcs\<close>
    then have "map_of (map (\<lambda>c. (c, x c)) pcs) c = Some (x c)" by (induction pcs) auto
    then show "cell E (map (\<lambda>c. (c, x c)) pcs) c = x c" by (simp add: cell_def)
  qed
  with assms show ?thesis by (auto simp: key_match_def list_all_iff)
qed

lemma filter_at_most_one:
  assumes "distinct xs" and "\<forall>x \<in> set xs. \<forall>y \<in> set xs. P x \<and> P y \<longrightarrow> x = y"
  shows "map (\<lambda>x. l) (filter P xs) = (if \<exists>x \<in> set xs. P x then [l] else [])"
  using assms
proof (induction xs)
  case Nil
  then show ?case by simp
next
  case (Cons a xs)
  have IH: "map (\<lambda>x. l) (filter P xs) = (if \<exists>x \<in> set xs. P x then [l] else [])"
    using Cons by simp
  show ?case
  proof (cases "P a")
    case True
    have "\<not> (\<exists>x \<in> set xs. P x)" using Cons.prems True by auto
    with True IH show ?thesis by simp
  next
    case False
    with IH show ?thesis by simp
  qed
qed

lemma concat_map_filter: "concat (map (\<lambda>x. if P x then [x] else []) xs) = filter P xs"
  by (induction xs) auto

lemma join_inner_affected:
  assumes "partitions_affected_df E df pcs = Inr A"
    and "join_inner E X A' pcs = Inr J" and "schema A' = schema A" and "rows A' = rows A"
  shows "schema J = schema X \<and> rows J = touched E pcs (rows df) (rows X)"
proof -
  note A = affected_schema[OF assms(1)]
  have no_extra: "filter (\<lambda>(c, t). c \<notin> set pcs) (schema A) = []"
    using A(1) by (auto simp: filter_empty_conv)
  let ?sel = "\<lambda>r. map (\<lambda>c. (c, cell E r c)) pcs"
  have rowsA: "set (rows A) = ?sel ` set (rows df)" and dA: "distinct (rows A)"
    by (simp_all add: A(2))
  have plain: "\<And>l r. r \<in> set (rows A) \<Longrightarrow> l @ filter (\<lambda>(c, v). c \<notin> set pcs) r = l"
    using rowsA by (auto simp: filter_empty_conv)
  have one: "\<And>l. map (\<lambda>r. l @ filter (\<lambda>(c, v). c \<notin> set pcs) r) (filter (key_match E pcs l) (rows A))
                = (if \<exists>r \<in> set (rows df). key_match E pcs l r then [l] else [])"
  proof -
    fix l
    have same: "\<forall>x \<in> set (rows A). \<forall>y \<in> set (rows A).
                  key_match E pcs l x \<and> key_match E pcs l y \<longrightarrow> x = y"
    proof (intro ballI impI)
      fix x y assume \<open>x \<in> set (rows A)\<close> \<open>y \<in> set (rows A)\<close>
        and m: "key_match E pcs l x \<and> key_match E pcs l y"
      then obtain rx ry where x: "x = ?sel rx" and y: "y = ?sel ry" using rowsA by auto
      from m selected_row_determined[of E pcs l "cell E rx"] selected_row_determined[of E pcs l "cell E ry"]
      show "x = y" unfolding x y by simp
    qed
    have "map (\<lambda>r. l @ filter (\<lambda>(c, v). c \<notin> set pcs) r) (filter (key_match E pcs l) (rows A))
            = map (\<lambda>r. l) (filter (key_match E pcs l) (rows A))"
      by (rule map_cong) (auto simp: plain)
    also have "\<dots> = (if \<exists>r \<in> set (rows A). key_match E pcs l r then [l] else [])"
      by (rule filter_at_most_one[OF dA same])
    also have "(\<exists>r \<in> set (rows A). key_match E pcs l r) = (\<exists>r \<in> set (rows df). key_match E pcs l r)"
      unfolding rowsA by (simp add: key_match_selected)
    finally show "map (\<lambda>r. l @ filter (\<lambda>(c, v). c \<notin> set pcs) r) (filter (key_match E pcs l) (rows A))
                = (if \<exists>r \<in> set (rows df). key_match E pcs l r then [l] else [])" .
  qed
  from assms(2) show ?thesis
    by (auto simp: join_inner_def assms(3,4) no_extra one concat_map_filter touched_def
        split: option.splits)
qed

lemma upsert_scoped:
  assumes "given upsert_key" "given partition_cols" "target w = Dataset sch parts"
    and "table_for_mode E df lazy_df True upsert_key partition_cols None w = (Inr d, w')"
  shows "target w' = Dataset sch (untouched_parts E (rows lazy_df) (names partition_cols) parts)
       \<and> upserted E (names upsert_key) lazy_df sch
           (survivors E (names upsert_key) (rows lazy_df)
              (touched E (names partition_cols) (rows lazy_df) (concat (map snd parts)))) d"
proof -
  let ?pcs = "names partition_cols"
  let ?key = "names upsert_key"
  let ?old = "\<lparr> schema = sch, rows = concat (map snd parts), failing = [], scans = False \<rparr>"
  from assms(1,2,4) obtain A where A: "partitions_affected_df E lazy_df ?pcs = Inr A"
    by (cases "partitions_affected_df E lazy_df ?pcs") (auto simp: table_for_mode_def io_defs)
  have paths: "\<forall>p \<in> set (tuples E A). partition_path E ?pcs p \<noteq> []"
    using partition_path_nonempty[OF A] given_names[OF assms(2)] by simp
  have "removed_after E ?pcs (tuples E A) (target w) =
            Dataset sch (filter (\<lambda>(d, rs). \<not> (\<exists>p \<in> set (tuples E A).
                                   prefix (partition_path E ?pcs p) d)) parts)"
    unfolding assms(3) by (rule removed_after_Dataset[OF paths])
  also have "(\<lambda>(d, rs). \<not> (\<exists>p \<in> set (tuples E A). prefix (partition_path E ?pcs p) d)) =
               (\<lambda>(d, rs). \<not> (\<exists>r \<in> set (rows lazy_df).
                                prefix (partition_path E ?pcs (partition_key E ?pcs r)) d))"
    unfolding tuples_affected[OF A] by simp
  finally have t: "removed_after E ?pcs (tuples E A) (target w) =
      Dataset sch (untouched_parts E (rows lazy_df) ?pcs parts)"
    unfolding untouched_parts_def .
  from assms A obtain J S where
    J: "join_inner E ?old A ?pcs = Inr J"
    and S: "join_anti E J lazy_df ?key = Inr S"
    and U: "concat_diagonal_relaxed E lazy_df (S\<lparr> scans := False \<rparr>) = Inr d"
    and tw: "target w' = removed_after E ?pcs (tuples E A) (target w)"
    by (auto simp: table_for_mode_def io_defs remove_partitions_run
        split: sum.splits if_splits target.splits)
  from join_inner_affected[OF A J] have j: "schema J = sch"
    "rows J = touched E ?pcs (rows lazy_df) (concat (map snd parts))" by simp_all
  from S have jc: "join_check J lazy_df ?key = None"
    and s: "schema S = schema J" "rows S = survivors E ?key (rows lazy_df) (rows J)"
    by (auto simp: join_anti_def survivors_def split: option.splits)
  have "upserted E ?key lazy_df (schema J) (survivors E ?key (rows lazy_df) (rows J)) d"
    by (rule upserted_concat[OF jc U]) (simp_all add: s)
  with tw t j show ?thesis by simp
qed

text \<open>
  Claim C2, as the code has it. Take an upsert over readable existing data, without
  \<^verbatim>\<open>overwrite_level\<close>, that succeeds. The table written is the upsert of the incoming
  table, as it is after the reconciliation, into the existing rows that survive: their
  union by name, with the key cells of every row unchanged, the incoming rows first; a
  surviving row has the key of an incoming row only where one of its key cells is null,
  which matches nothing.

  \<^item> Without partition columns, or when the schemas still differ after the
    reconciliation, the rows that survive are the rows of the dataset whose key matches
    no incoming row, and the dataset after the call is what the writer makes of the
    sanitized table in place of the old dataset.
  \<^item> With partition columns and matching schemas, the rows that survive are those
    existing rows that agree with some incoming row on every partition column, no cell
    being null, and whose key matches no incoming row; the dataset after the call is
    what the writer makes of the sanitized table over the files that lie outside the
    directories that line 304 names for the incoming rows. The rows of these files stay
    whatever their keys.
\<close>

theorem upsert_keeps_unmatched_rows:
  assumes "target w = Dataset sch parts" and "parts \<noteq> []" and "given upsert_key"
    and "write_parquet E df upsert_key partition_cols None w = (Inr (), w')"
  shows "if given partition_cols \<and> snd (reconcile E sch df)
         then \<exists>U. upserted E (names upsert_key) (fst (reconcile E sch df)) sch
                     (survivors E (names upsert_key) (rows (fst (reconcile E sch df)))
                        (touched E (names partition_cols) (rows (fst (reconcile E sch df)))
                           (concat (map snd parts)))) U
                   \<and> materialize E U partition_cols
                       (Dataset sch (untouched_parts E (rows (fst (reconcile E sch df)))
                                       (names partition_cols) parts))
                     = Inr (target w')
         else \<exists>U. upserted E (names upsert_key) (fst (reconcile E sch df)) sch
                     (survivors E (names upsert_key) (rows (fst (reconcile E sch df)))
                        (concat (map snd parts))) U
                   \<and> materialize E U partition_cols Absent = Inr (target w')"
proof -
  let ?L = "fst (reconcile E sch df)"
  let ?M = "snd (reconcile E sch df)"
  let ?w1 = "w\<lparr> events := events w @ [Exists [], ListDir, CollectSchema] @ dir_events w
                                      @ [ListDir, CollectSchema] @ incoming_reads E sch df \<rparr>"
  let ?mode = "table_for_mode E df ?L ?M upsert_key partition_cols None"
  have dir: "dir_error w = None"
  proof (cases "dir_error w")
    case (Some err)
    with assms(4) table_to_write_no_directory[OF assms(1,2) Some, of E df upsert_key partition_cols
        None]
    show ?thesis by (simp add: write_parquet_def bind_def)
  qed simp
  have start: "table_to_write E df upsert_key partition_cols None w = ?mode ?w1"
    unfolding table_to_write_existing[OF assms(1,2) dir]
    using assms(1,2) by (subst reconcile_start[of _ sch parts]) simp_all
  from assms(4) obtain d w3 where mode: "?mode ?w1 = (Inr d, w3)"
    and fin: "sanitize_and_write E d partition_cols w3 = (Inr (), w')"
    unfolding write_parquet_def start bind_def
    by (auto split: prod.splits sum.splits)
  have mat: "materialize E d partition_cols (target w3) = Inr (target w')"
    by (rule sanitize_and_write_success[OF fin])
  have t1: "target ?w1 = Dataset sch parts" using assms(1) by simp
  show ?thesis
  proof (cases "given partition_cols \<and> ?M")
    case True
    then have g: "given partition_cols" and m: "?M = True" by simp_all
    from upsert_scoped[OF assms(3) g t1 mode[unfolded m]] mat True
    show ?thesis by auto
  next
    case False
    from upsert_whole[OF assms(3) False t1 mode] mat False
    show ?thesis by auto
  qed
qed

text \<open>
  The upsert of scenario C with partition columns: the incoming row lies in
  \<^verbatim>\<open>region=US\<close>, the existing row of that partition has another key and is written
  again after it, and the file of \<^verbatim>\<open>region=EU\<close> stays.
\<close>

theorem upsert_keeps_unmatched_rows_witness:
  "target (storage region_existing) =
     Dataset region_schema
       [([''region=US''], [[(''id'', Some ''1''), (''region'', Some ''US'')]]),
        ([''region=EU''], [[(''id'', Some ''2''), (''region'', Some ''EU'')]])]
   \<and> given (Some [''id'']) \<and> given (Some [''region''])
   \<and> reconcile plain_engine region_schema region_incoming = (region_incoming, True)
   \<and> write_parquet plain_engine region_incoming (Some [''id'']) (Some [''region'']) None
         (storage region_existing) =
       (Inr (),
        \<lparr> target = Dataset region_schema
            [([''region=EU''], [[(''id'', Some ''2''), (''region'', Some ''EU'')]]),
             ([''region=US''], [[(''id'', Some ''3''), (''region'', Some ''US'')],
                                [(''id'', Some ''1''), (''region'', Some ''US'')]])],
          s3 = False, parent_exists = True, on_mkdir = AlreadyThere,
          events = [Exists [], ListDir, CollectSchema, ExistsCurrentDir, ListDir, CollectSchema,
                    CollectData, Exists [''region=US''], RemoveDir [''region=US''],
                    WriteParquet
                      \<lparr> schema = region_schema,
                        rows = [[(''id'', Some ''3''), (''region'', Some ''US'')],
                                [(''id'', Some ''1''), (''region'', Some ''US'')]],
                        failing = [], scans = False \<rparr> [''region'']] \<rparr>)
   \<and> survivors plain_engine [''id''] (rows region_incoming)
         (touched plain_engine [''region''] (rows region_incoming)
            [[(''id'', Some ''1''), (''region'', Some ''US'')],
             [(''id'', Some ''2''), (''region'', Some ''EU'')]])
       = [[(''id'', Some ''1''), (''region'', Some ''US'')]]
   \<and> untouched_parts plain_engine (rows region_incoming) [''region'']
         [([''region=US''], [[(''id'', Some ''1''), (''region'', Some ''US'')]]),
          ([''region=EU''], [[(''id'', Some ''2''), (''region'', Some ''EU'')]])]
       = [([''region=EU''], [[(''id'', Some ''2''), (''region'', Some ''EU'')]])]
   \<and> (\<exists>U. upserted plain_engine [''id''] region_incoming region_schema
              [[(''id'', Some ''1''), (''region'', Some ''US'')]] U
          \<and> materialize plain_engine U (Some [''region''])
              (Dataset region_schema
                 [([''region=EU''], [[(''id'', Some ''2''), (''region'', Some ''EU'')]])])
            = Inr (Dataset region_schema
                [([''region=EU''], [[(''id'', Some ''2''), (''region'', Some ''EU'')]]),
                 ([''region=US''], [[(''id'', Some ''3''), (''region'', Some ''US'')],
                                    [(''id'', Some ''1''), (''region'', Some ''US'')]])]))"
proof -
  let ?us = "([''region=US''], [[(''id'', Some ''1''), (''region'', Some ''US'')]])
             :: string list \<times> string option row list"
  let ?eu = "([''region=EU''], [[(''id'', Some ''2''), (''region'', Some ''EU'')]])
             :: string list \<times> string option row list"
  let ?parts = "[?us, ?eu]"
  let ?new = "Dataset region_schema
            [?eu,
             ([''region=US''], [[(''id'', Some ''3''), (''region'', Some ''US'')],
                                [(''id'', Some ''1''), (''region'', Some ''US'')]])]
          :: string option target"
  let ?W = "\<lparr> target = ?new,
          s3 = False, parent_exists = True, on_mkdir = AlreadyThere,
          events = [Exists [], ListDir, CollectSchema, ExistsCurrentDir, ListDir, CollectSchema,
                    CollectData, Exists [''region=US''], RemoveDir [''region=US''],
                    WriteParquet
                      \<lparr> schema = region_schema,
                        rows = [[(''id'', Some ''3''), (''region'', Some ''US'')],
                                [(''id'', Some ''1''), (''region'', Some ''US'')]],
                        failing = [], scans = False \<rparr> [''region'']] \<rparr> :: string option world"
  have a: "target (storage region_existing) = Dataset region_schema ?parts"
    by (simp add: storage_def region_existing_def)
  have b: "?parts \<noteq> []" by simp
  have g: "given (Some [''id''])" "given (Some [''region''])" by (simp_all add: given_def)
  have n: "names (Some [''id'']) = [''id'']" "names (Some [''region'']) = [''region'']"
    by (simp_all add: names_def)
  have r: "reconcile plain_engine region_schema region_incoming = (region_incoming, True)"
    by (simp add: reconcile_def region_incoming_def)
  have run: "write_parquet plain_engine region_incoming (Some [''id'']) (Some [''region'']) None
         (storage region_existing) = (Inr (), ?W)"
    by (simp add: run_defs region_existing_def region_incoming_def region_schema_def
        plain_engine_def)
  have s: "survivors plain_engine [''id''] (rows region_incoming)
         (touched plain_engine [''region''] (rows region_incoming)
            [[(''id'', Some ''1''), (''region'', Some ''US'')],
             [(''id'', Some ''2''), (''region'', Some ''EU'')]])
       = [[(''id'', Some ''1''), (''region'', Some ''US'')]]"
    by (simp add: survivors_def touched_def key_match_def cell_def region_incoming_def
        plain_engine_def)
  have u: "untouched_parts plain_engine (rows region_incoming) [''region''] ?parts = [?eu]"
    by (simp add: untouched_parts_def partition_path_def partition_key_def cell_def
        region_incoming_def plain_engine_def)
  have tw: "target ?W = ?new" by simp
  from upsert_keeps_unmatched_rows[OF a b g(1) run] g(2) r
  have "\<exists>U. upserted plain_engine (names (Some [''id''])) region_incoming region_schema
                     (survivors plain_engine (names (Some [''id''])) (rows region_incoming)
                        (touched plain_engine (names (Some [''region''])) (rows region_incoming)
                           (concat (map snd ?parts)))) U
                   \<and> materialize plain_engine U (Some [''region''])
                       (Dataset region_schema (untouched_parts plain_engine (rows region_incoming)
                                       (names (Some [''region''])) ?parts))
                     = Inr (target ?W)"
    by simp
  then have e: "\<exists>U. upserted plain_engine [''id''] region_incoming region_schema
              [[(''id'', Some ''1''), (''region'', Some ''US'')]] U
          \<and> materialize plain_engine U (Some [''region'']) (Dataset region_schema [?eu]) = Inr ?new"
    unfolding n u tw using s by simp
  from a g r run s u e show ?thesis by blast
qed

text \<open>
  The claim as the specification words it fails in four ways. An incoming row that moves
  the key 1 from \<^verbatim>\<open>region=US\<close> to \<^verbatim>\<open>region=EU\<close> leaves the old row of that key on
  disk: the dataset holds the key twice, once old and once new. An incoming row with a
  null key does not replace the existing row with a null key: both are written. An
  incoming row with a null region does not replace the existing row of its key in the
  directory that the writer names for a null region: line 304 names another directory,
  nothing is removed, and the dataset holds the key twice. And an upsert on a key column
  that has another type in the incoming table aborts in the join, and the dataset stays
  as it was.
\<close>

theorem upsert_one_row_per_key_counterexample:
  "write_parquet plain_engine moved_incoming (Some [''id'']) (Some [''region'']) None
     (storage region_existing) =
     (Inr (),
      \<lparr> target = Dataset region_schema
          [([''region=US''], [[(''id'', Some ''1''), (''region'', Some ''US'')]]),
           ([''region=EU''], [[(''id'', Some ''1''), (''region'', Some ''EU'')],
                              [(''id'', Some ''2''), (''region'', Some ''EU'')]])],
        s3 = False, parent_exists = True, on_mkdir = AlreadyThere,
        events = [Exists [], ListDir, CollectSchema, ExistsCurrentDir, ListDir, CollectSchema,
                  CollectData, Exists [''region=EU''], RemoveDir [''region=EU''],
                  WriteParquet
                    \<lparr> schema = region_schema,
                      rows = [[(''id'', Some ''1''), (''region'', Some ''EU'')],
                              [(''id'', Some ''2''), (''region'', Some ''EU'')]],
                      failing = [], scans = False \<rparr> [''region'']] \<rparr>)
   \<and> write_parquet plain_engine null_key_incoming (Some [''id'']) None None
       (storage null_key_existing) =
     (Inr (),
      \<lparr> target = Dataset kv_schema [([], [[(''id'', None), (''v'', Some ''z'')],
                                          [(''id'', None), (''v'', Some ''a'')]])],
        s3 = False, parent_exists = True, on_mkdir = AlreadyThere,
        events = [Exists [], ListDir, CollectSchema, ExistsCurrentDir, ListDir, CollectSchema,
                  CollectData, RemoveDir [],
                  WriteParquet
                    \<lparr> schema = kv_schema,
                      rows = [[(''id'', None), (''v'', Some ''z'')],
                              [(''id'', None), (''v'', Some ''a'')]],
                      failing = [], scans = False \<rparr> []] \<rparr>)
   \<and> write_parquet hive_engine null_region_incoming (Some [''id'']) (Some [''region'']) None
       (storage null_region_existing) =
     (Inr (),
      \<lparr> target = Dataset region_schema
          [([''region=__HIVE_DEFAULT_PARTITION__''], [[(''id'', Some ''5''), (''region'', None)]]),
           ([''region=__HIVE_DEFAULT_PARTITION__''], [[(''id'', Some ''5''), (''region'', None)]])],
        s3 = False, parent_exists = True, on_mkdir = AlreadyThere,
        events = [Exists [], ListDir, CollectSchema, ExistsCurrentDir, ListDir, CollectSchema,
                  CollectData, Exists [''region=None''],
                  WriteParquet
                    \<lparr> schema = region_schema,
                      rows = [[(''id'', Some ''5''), (''region'', None)]],
                      failing = [], scans = False \<rparr> [''region'']] \<rparr>)
   \<and> write_parquet strict_engine text_incoming (Some [''id'']) None None (storage kv_existing) =
       (Inl SchemaError,
        \<lparr> target = kv_existing,
          s3 = False, parent_exists = True, on_mkdir = AlreadyThere,
          events = [Exists [], ListDir, CollectSchema, ExistsCurrentDir, ListDir, CollectSchema,
                    CollectData] \<rparr>)"
proof -
  have 1: "write_parquet plain_engine moved_incoming (Some [''id'']) (Some [''region'']) None
     (storage region_existing) =
     (Inr (),
      \<lparr> target = Dataset region_schema
          [([''region=US''], [[(''id'', Some ''1''), (''region'', Some ''US'')]]),
           ([''region=EU''], [[(''id'', Some ''1''), (''region'', Some ''EU'')],
                              [(''id'', Some ''2''), (''region'', Some ''EU'')]])],
        s3 = False, parent_exists = True, on_mkdir = AlreadyThere,
        events = [Exists [], ListDir, CollectSchema, ExistsCurrentDir, ListDir, CollectSchema,
                  CollectData, Exists [''region=EU''], RemoveDir [''region=EU''],
                  WriteParquet
                    \<lparr> schema = region_schema,
                      rows = [[(''id'', Some ''1''), (''region'', Some ''EU'')],
                              [(''id'', Some ''2''), (''region'', Some ''EU'')]],
                      failing = [], scans = False \<rparr> [''region'']] \<rparr>)"
    by (simp add: run_defs region_existing_def moved_incoming_def region_schema_def
        plain_engine_def)
  have 2: "write_parquet plain_engine null_key_incoming (Some [''id'']) None None
       (storage null_key_existing) =
     (Inr (),
      \<lparr> target = Dataset kv_schema [([], [[(''id'', None), (''v'', Some ''z'')],
                                          [(''id'', None), (''v'', Some ''a'')]])],
        s3 = False, parent_exists = True, on_mkdir = AlreadyThere,
        events = [Exists [], ListDir, CollectSchema, ExistsCurrentDir, ListDir, CollectSchema,
                  CollectData, RemoveDir [],
                  WriteParquet
                    \<lparr> schema = kv_schema,
                      rows = [[(''id'', None), (''v'', Some ''z'')],
                              [(''id'', None), (''v'', Some ''a'')]],
                      failing = [], scans = False \<rparr> []] \<rparr>)"
    by (simp add: run_defs null_key_existing_def null_key_incoming_def kv_schema_def
        plain_engine_def)
  have 3: "write_parquet hive_engine null_region_incoming (Some [''id'']) (Some [''region'']) None
       (storage null_region_existing) =
     (Inr (),
      \<lparr> target = Dataset region_schema
          [([''region=__HIVE_DEFAULT_PARTITION__''], [[(''id'', Some ''5''), (''region'', None)]]),
           ([''region=__HIVE_DEFAULT_PARTITION__''], [[(''id'', Some ''5''), (''region'', None)]])],
        s3 = False, parent_exists = True, on_mkdir = AlreadyThere,
        events = [Exists [], ListDir, CollectSchema, ExistsCurrentDir, ListDir, CollectSchema,
                  CollectData, Exists [''region=None''],
                  WriteParquet
                    \<lparr> schema = region_schema,
                      rows = [[(''id'', Some ''5''), (''region'', None)]],
                      failing = [], scans = False \<rparr> [''region'']] \<rparr>)"
    by (simp add: run_defs null_region_existing_def null_region_incoming_def region_schema_def
        hive_engine_def plain_engine_def)
  have c: "with_columns_cast strict_engine text_incoming kv_schema = Inl InvalidOperationError"
    by (simp add: with_columns_cast_def text_incoming_def kv_schema_def strict_engine_def
        plain_engine_def)
  have 4: "write_parquet strict_engine text_incoming (Some [''id'']) None None (storage kv_existing) =
       (Inl SchemaError,
        \<lparr> target = kv_existing,
          s3 = False, parent_exists = True, on_mkdir = AlreadyThere,
          events = [Exists [], ListDir, CollectSchema, ExistsCurrentDir, ListDir, CollectSchema,
                    CollectData] \<rparr>)"
    using c
    by (simp add: run_defs kv_existing_def kv_schema_def text_incoming_def strict_engine_def
        plain_engine_def)
  from 1 2 3 4 show ?thesis by simp
qed

end
